theory Spec2Isabelle
  imports Main "HOL-Library.Word"
begin

section \<open>Data model\<close>

text \<open>
  Both programs (\<^verbatim>\<open>gol-par.cpp\<close>, the threads version, and \<^verbatim>\<open>gol-omp.cpp\<close>, the
  OpenMP version) declare \<^verbatim>\<open>using Row = std::vector<int>\<close> and
  \<^verbatim>\<open>using Board = std::vector<Row>\<close>. A cell is a C++ \<^verbatim>\<open>int\<close>: a 32-bit word, so that
  \<^verbatim>\<open>neighbours += ...\<close> wraps around in the model where the addition of arbitrary cell
  values would overflow. Row and column indices are C++ \<^verbatim>\<open>int\<close>s as well; they are
  modelled as unbounded integers, and the theorems about the threads version, where
  \<^verbatim>\<open>int\<close> and \<^verbatim>\<open>size_t\<close> are mixed, ask for a board whose number of rows is an
  \<^verbatim>\<open>int\<close> (as every board made by \<^verbatim>\<open>initializeBoard(int nrows, ...)\<close> is).
\<close>

type_synonym Row = "32 word list"
type_synonym Board = "Row list"

text \<open>
  \<^verbatim>\<open>std::vector::at\<close> throws \<^verbatim>\<open>std::out_of_range\<close>; an integer division by zero is
  a trap. Both end the process, and both are results of the model.
\<close>

datatype error = OutOfRange | DivisionByZero

text \<open>
  \<^verbatim>\<open>v.at(i)\<close> with an \<^verbatim>\<open>int\<close> index: the index is converted to \<^verbatim>\<open>size_t\<close>, so a
  negative one is far beyond the size and throws as well.
\<close>

definition at_vec :: "'a list \<Rightarrow> int \<Rightarrow> error + 'a" where
  "at_vec v i = (if 0 \<le> i \<and> i < int (length v) then Inr (v ! nat i) else Inl OutOfRange)"

text \<open>\<^verbatim>\<open>board.at(r).at(c)\<close>\<close>

definition cell_at :: "Board \<Rightarrow> int \<Rightarrow> int \<Rightarrow> error + 32 word" where
  "cell_at board r c =
     (case at_vec board r of Inl e \<Rightarrow> Inl e | Inr row \<Rightarrow> at_vec row c)"

text \<open>\<^verbatim>\<open>v.at(i) = x\<close>\<close>

definition put_vec :: "'a list \<Rightarrow> int \<Rightarrow> 'a \<Rightarrow> error + 'a list" where
  "put_vec v i x = (if 0 \<le> i \<and> i < int (length v) then Inr (v[nat i := x]) else Inl OutOfRange)"

section \<open>The neighbour rule: \<^verbatim>\<open>updateCell\<close>\<close>

text \<open>
  The inner loop \<^verbatim>\<open>for(auto offcol : range)\<close> of \<^verbatim>\<open>updateCell\<close>, with the running value
  of \<^verbatim>\<open>neighbours\<close>. The threads version tests \<^verbatim>\<open>(offcol || offset)\<close>, the OpenMP version
  \<^verbatim>\<open>((offcol != 0) || offset != 0)\<close>: the same condition, so one definition stands for
  the \<^verbatim>\<open>updateCell\<close> of both files, which are otherwise the same text.
\<close>

fun offcol_loop :: "Board \<Rightarrow> Row \<Rightarrow> int \<Rightarrow> int \<Rightarrow> int \<Rightarrow> int list \<Rightarrow> 32 word \<Rightarrow> error + 32 word" where
  "offcol_loop board row r c offset [] neighbours = Inr neighbours"
| "offcol_loop board row r c offset (offcol # rest) neighbours =
     (if (offcol \<noteq> 0 \<or> offset \<noteq> 0) \<and> c + offcol \<ge> 0 \<and> c + offcol < int (length row)
      then (case cell_at board (r + offset) (c + offcol) of
              Inl e \<Rightarrow> Inl e
            | Inr v \<Rightarrow> offcol_loop board row r c offset rest (neighbours + v))
      else offcol_loop board row r c offset rest neighbours)"

text \<open>The outer loop \<^verbatim>\<open>for(auto offset : range)\<close> with the board's boundary check.\<close>

fun offset_loop :: "Board \<Rightarrow> int \<Rightarrow> int \<Rightarrow> int list \<Rightarrow> 32 word \<Rightarrow> error + 32 word" where
  "offset_loop board r c [] neighbours = Inr neighbours"
| "offset_loop board r c (offset # rest) neighbours =
     (if r + offset \<ge> 0 \<and> r + offset < int (length board)
      then (case at_vec board (r + offset) of
              Inl e \<Rightarrow> Inl e
            | Inr row \<Rightarrow>
                (case offcol_loop board row r c offset [-1, 0, 1] neighbours of
                   Inl e \<Rightarrow> Inl e
                 | Inr neighbours' \<Rightarrow> offset_loop board r c rest neighbours'))
      else offset_loop board r c rest neighbours)"

text \<open>
  \<^verbatim>\<open>updateCell\<close>: the two loops over \<^verbatim>\<open>range = {-1, 0, 1}\<close>, then the return expression
  \<^verbatim>\<open>(((n == 2) || (n == 3)) && board.at(r).at(c)) || (!(board.at(r).at(c)) && (n == 3))\<close>
  with the short-circuit evaluation of \<^verbatim>\<open>&&\<close> and \<^verbatim>\<open>||\<close>: the centre cell is read once
  or twice, and each read can throw.
\<close>

definition updateCell :: "int \<Rightarrow> int \<Rightarrow> Board \<Rightarrow> error + bool" where
  "updateCell r c board =
     (case offset_loop board r c [-1, 0, 1] 0 of
        Inl e \<Rightarrow> Inl e
      | Inr neighbours \<Rightarrow>
          (case (if neighbours = 2 \<or> neighbours = 3
                 then (case cell_at board r c of Inl e \<Rightarrow> Inl e | Inr v \<Rightarrow> Inr (v \<noteq> 0))
                 else Inr False) of
             Inl e \<Rightarrow> Inl e
           | Inr True \<Rightarrow> Inr True
           | Inr False \<Rightarrow>
               (case cell_at board r c of
                  Inl e \<Rightarrow> Inl e
                | Inr v \<Rightarrow> Inr (\<not> (v \<noteq> 0) \<and> neighbours = 3))))"

section \<open>The neighbour rule as the specification words it\<close>

text \<open>A board is rectangular when all its rows have the same length \<open>ncols\<close>.\<close>

definition rectangular :: "Board \<Rightarrow> nat \<Rightarrow> bool" where
  "rectangular board ncols = (\<forall>row \<in> set board. length row = ncols)"

text \<open>
  The specification's reading of the rule, written from its words and not from the code:
  the eight positions of the 3x3 block around \<open>(r, c)\<close> without the centre; a position
  outside \<open>[0, nrows) \<times> [0, ncols)\<close> contributes nothing; the neighbour count is the sum
  of the contributions; an alive cell stays alive with 2 or 3 neighbours, a dead one
  becomes alive with exactly 3.
\<close>

definition in_board :: "nat \<Rightarrow> nat \<Rightarrow> int \<Rightarrow> int \<Rightarrow> bool" where
  "in_board nrows ncols r c = (0 \<le> r \<and> r < int nrows \<and> 0 \<le> c \<and> c < int ncols)"

definition contribution :: "Board \<Rightarrow> nat \<Rightarrow> int \<Rightarrow> int \<Rightarrow> 32 word" where
  "contribution board ncols r c =
     (if in_board (length board) ncols r c then board ! nat r ! nat c else 0)"

definition neighbour_offsets :: "(int \<times> int) list" where
  "neighbour_offsets = [(-1, -1), (-1, 0), (-1, 1), (0, -1), (0, 1), (1, -1), (1, 0), (1, 1)]"

definition neighbour_count :: "Board \<Rightarrow> nat \<Rightarrow> int \<Rightarrow> int \<Rightarrow> 32 word" where
  "neighbour_count board ncols r c =
     sum_list (map (\<lambda>(dr, dc). contribution board ncols (r + dr) (c + dc)) neighbour_offsets)"

definition transition_rule :: "bool \<Rightarrow> 32 word \<Rightarrow> bool" where
  "transition_rule alive n = (if alive then n = 2 \<or> n = 3 else n = 3)"

text \<open>
  What the two loops of \<^verbatim>\<open>updateCell\<close> add up, as closed terms: the guarded read of one
  position, and the sum over one row of the block. They only serve the proofs.
\<close>

definition guarded_cell :: "Board \<Rightarrow> int \<Rightarrow> int \<Rightarrow> int \<Rightarrow> int \<Rightarrow> 32 word" where
  "guarded_cell board r c offset offcol =
     (if (offcol \<noteq> 0 \<or> offset \<noteq> 0) \<and> 0 \<le> c + offcol
         \<and> c + offcol < int (length (board ! nat (r + offset)))
      then board ! nat (r + offset) ! nat (c + offcol) else 0)"

definition guarded_row :: "Board \<Rightarrow> int \<Rightarrow> int \<Rightarrow> int \<Rightarrow> 32 word" where
  "guarded_row board r c offset =
     (if 0 \<le> r + offset \<and> r + offset < int (length board)
      then sum_list (map (guarded_cell board r c offset) [-1, 0, 1]) else 0)"

section \<open>One row of the new board\<close>

text \<open>
  The body shared by the loop over rows of both versions (\<^verbatim>\<open>compute_chunk\<close> in
  \<^verbatim>\<open>gol-par.cpp\<close>, the \<^verbatim>\<open>omp parallel for\<close> in \<^verbatim>\<open>gol-omp.cpp\<close>):
  \<^verbatim>\<open>Row new_row = {}; Row row = board.at(r);\<close>
  \<^verbatim>\<open>for(int i = 0; i < row.size(); i++) new_row.push_back(updateCell(r, i, board));\<close>
  \<^verbatim>\<open>new_board.at(r) = new_row;\<close>
  The \<^verbatim>\<open>bool\<close> that \<^verbatim>\<open>updateCell\<close> returns is converted to the \<^verbatim>\<open>int\<close> 0 or 1 by
  \<^verbatim>\<open>push_back\<close>.
\<close>

fun push_cells :: "Board \<Rightarrow> int \<Rightarrow> nat list \<Rightarrow> Row \<Rightarrow> error + Row" where
  "push_cells board r [] new_row = Inr new_row"
| "push_cells board r (i # rest) new_row =
     (case updateCell r (int i) board of
        Inl e \<Rightarrow> Inl e
      | Inr b \<Rightarrow> push_cells board r rest (new_row @ [of_bool b]))"

definition row_body :: "Board \<Rightarrow> int \<Rightarrow> Board \<Rightarrow> error + Board" where
  "row_body board r new_board =
     (case at_vec board r of
        Inl e \<Rightarrow> Inl e
      | Inr row \<Rightarrow>
          (case push_cells board r [0..<length row] [] of
             Inl e \<Rightarrow> Inl e
           | Inr new_row \<Rightarrow> put_vec new_board r new_row))"

section \<open>The threads version: \<^verbatim>\<open>updateBoard\<close> of \<^verbatim>\<open>gol-par.cpp\<close>\<close>

text \<open>\<^verbatim>\<open>struct Range { int start; int end; }\<close>\<close>

record Range =
  range_start :: int
  range_end :: int

text \<open>The rows of an inclusive span \<open>[start, end]\<close>.\<close>

definition rows_of :: "Range \<Rightarrow> int set" where
  "rows_of rg = {range_start rg .. range_end rg}"

definition INT_MAX :: int where
  "INT_MAX = 2147483647"

text \<open>
  The conversions of the 64-bit target: an \<^verbatim>\<open>int\<close> operand of a \<^verbatim>\<open>size_t\<close> operation
  is taken modulo \<open>2 ^ 64\<close>, and a \<^verbatim>\<open>size_t\<close> assigned to an \<^verbatim>\<open>int\<close> keeps its low 32
  bits, read as two's complement.
\<close>

definition to_size_t :: "int \<Rightarrow> int" where
  "to_size_t x = x mod 2 ^ 64"

definition to_int :: "int \<Rightarrow> int" where
  "to_int x = (x + 2 ^ 31) mod 2 ^ 32 - 2 ^ 31"

text \<open>
  The loop \<^verbatim>\<open>for(int i=0; i<nworkers; i++)\<close> that fills \<^verbatim>\<open>ranges\<close>.
  \<^verbatim>\<open>range.start+range_size - 1\<close> and \<^verbatim>\<open>board.size()-1\<close> are \<^verbatim>\<open>size_t\<close> values, converted
  when they are stored in \<^verbatim>\<open>range.end\<close>; \<^verbatim>\<open>i<rem\<close> compares as \<^verbatim>\<open>size_t\<close>.
  \<^verbatim>\<open>ranges.back()\<close> is only read when \<^verbatim>\<open>i\<close> is not 0, where \<^verbatim>\<open>ranges\<close> is not empty.
\<close>

function ranges_loop :: "nat \<Rightarrow> int \<Rightarrow> int \<Rightarrow> int \<Rightarrow> int \<Rightarrow> Range list \<Rightarrow> Range list" where
  "ranges_loop board_size nworkers range_size rem i ranges =
     (if i < nworkers
      then (let start = (if i = 0 then 0 else range_end (last ranges) + 1);
                end0 = to_int (if i \<noteq> nworkers - 1
                               then to_size_t (to_size_t start + range_size - 1)
                               else to_size_t (int board_size - 1));
                end1 = (if to_size_t i < rem then end0 + 1 else end0)
            in ranges_loop board_size nworkers range_size rem (i + 1)
                 (ranges @ [\<lparr>range_start = start, range_end = end1\<rparr>]))
      else ranges)"
  by pat_completeness auto
termination
  by (relation "measure (\<lambda>(board_size, nworkers, range_size, rem, i, ranges). nat (nworkers - i))") auto

declare ranges_loop.simps [simp del]

text \<open>
  \<^verbatim>\<open>range_size = board.size() / nworkers\<close> and \<^verbatim>\<open>rem = board.size() % nworkers\<close>, both
  in \<^verbatim>\<open>size_t\<close>; the caller has checked the divisor.
\<close>

definition make_ranges :: "nat \<Rightarrow> int \<Rightarrow> Range list" where
  "make_ranges board_size nworkers =
     ranges_loop board_size nworkers (int board_size div to_size_t nworkers)
       (int board_size mod to_size_t nworkers) 0 []"

text \<open>
  \<^verbatim>\<open>compute_chunk\<close>, from the row \<open>r\<close> the loop variable stands at to \<open>stop\<close>, the
  \<^verbatim>\<open>range.end\<close> of the chunk.
\<close>

function compute_chunk :: "Board \<Rightarrow> int \<Rightarrow> int \<Rightarrow> Board \<Rightarrow> error + Board" where
  "compute_chunk board r stop new_board =
     (if r \<le> stop
      then (case row_body board r new_board of
              Inl e \<Rightarrow> Inl e
            | Inr new_board' \<Rightarrow> compute_chunk board (r + 1) stop new_board')
      else Inr new_board)"
  by pat_completeness auto
termination
  by (relation "measure (\<lambda>(board, r, stop, new_board). nat (stop + 1 - r))") auto

declare compute_chunk.simps [simp del]

text \<open>
  The threads run at the same time. A thread is the state of its loop: the row it is
  about to compute and the last row of its range. A schedule is a list of thread
  numbers: each entry lets that thread run one iteration of its loop (nothing happens
  when the thread has finished or does not exist). Every thread reads only \<^verbatim>\<open>board\<close>
  and stores whole rows of \<^verbatim>\<open>new_board\<close>, so an interleaving of the threads is an order
  of these iterations. When the schedule is used up, the \<^verbatim>\<open>join\<close> loop waits for the
  threads one after the other, and each runs to the end of its range. An exception in
  a thread ends the process.
\<close>

record worker =
  next_row :: int
  last_row :: int

definition spawn :: "Range \<Rightarrow> worker" where
  "spawn rg = \<lparr>next_row = range_start rg, last_row = range_end rg\<rparr>"

definition worker_step :: "Board \<Rightarrow> nat \<Rightarrow> worker list \<times> Board \<Rightarrow> error + worker list \<times> Board" where
  "worker_step board t st =
     (let workers = fst st; new_board = snd st in
      if t < length workers \<and> next_row (workers ! t) \<le> last_row (workers ! t)
      then (case row_body board (next_row (workers ! t)) new_board of
              Inl e \<Rightarrow> Inl e
            | Inr new_board' \<Rightarrow>
                Inr (workers[t := (workers ! t)\<lparr>next_row := next_row (workers ! t) + 1\<rparr>],
                     new_board'))
      else Inr st)"

fun run_schedule :: "Board \<Rightarrow> nat list \<Rightarrow> worker list \<times> Board \<Rightarrow> error + worker list \<times> Board" where
  "run_schedule board [] st = Inr st"
| "run_schedule board (t # rest) st =
     (case worker_step board t st of
        Inl e \<Rightarrow> Inl e
      | Inr st' \<Rightarrow> run_schedule board rest st')"

fun join_all :: "Board \<Rightarrow> worker list \<Rightarrow> Board \<Rightarrow> error + Board" where
  "join_all board [] new_board = Inr new_board"
| "join_all board (w # rest) new_board =
     (case compute_chunk board (next_row w) (last_row w) new_board of
        Inl e \<Rightarrow> Inl e
      | Inr new_board' \<Rightarrow> join_all board rest new_board')"

text \<open>
  \<^verbatim>\<open>updateBoard(Board* b, int nworkers)\<close> of the threads version; the result is the value
  of \<^verbatim>\<open>*b\<close> after the call. \<^verbatim>\<open>Board new_board(board.size())\<close> is a vector of empty rows.
\<close>

definition updateBoard_par :: "nat list \<Rightarrow> Board \<Rightarrow> int \<Rightarrow> error + Board" where
  "updateBoard_par schedule board nworkers =
     (if to_size_t nworkers = 0 then Inl DivisionByZero
      else (let new_board = replicate (length board) [];
                ranges = make_ranges (length board) nworkers
            in case run_schedule board schedule (map spawn ranges, new_board) of
                 Inl e \<Rightarrow> Inl e
               | Inr st \<Rightarrow> join_all board (fst st) (snd st)))"

section \<open>The OpenMP version: \<^verbatim>\<open>updateBoard\<close> of \<^verbatim>\<open>gol-omp.cpp\<close>\<close>

text \<open>
  \<^verbatim>\<open>#pragma omp parallel for num_threads(nw) schedule(dynamic)\<close> hands the iterations
  \<open>r = 0, ..., board.size() - 1\<close> to the threads as they become idle: every iteration
  runs exactly once, in an order the program does not choose. The order is a parameter
  of the model, and \<open>omp_order\<close> says that it names every iteration once.
\<close>

definition omp_order :: "nat \<Rightarrow> nat list \<Rightarrow> bool" where
  "omp_order n order = (distinct order \<and> set order = {0..<n})"

fun omp_for :: "Board \<Rightarrow> nat list \<Rightarrow> Board \<Rightarrow> error + Board" where
  "omp_for board [] new_board = Inr new_board"
| "omp_for board (r # rest) new_board =
     (case row_body board (int r) new_board of
        Inl e \<Rightarrow> Inl e
      | Inr new_board' \<Rightarrow> omp_for board rest new_board')"

definition updateBoard_omp :: "nat list \<Rightarrow> Board \<Rightarrow> int \<Rightarrow> error + Board" where
  "updateBoard_omp order board nw = omp_for board order (replicate (length board) [])"

section \<open>The sequential reference\<close>

text \<open>
  The board obtained by applying \<^verbatim>\<open>updateCell\<close> to every cell of the prior board, row
  after row and column after column, with no partition and no thread.
\<close>

fun map_err :: "('a \<Rightarrow> error + 'b) \<Rightarrow> 'a list \<Rightarrow> error + 'b list" where
  "map_err f [] = Inr []"
| "map_err f (x # xs) =
     (case f x of
        Inl e \<Rightarrow> Inl e
      | Inr y \<Rightarrow> (case map_err f xs of Inl e \<Rightarrow> Inl e | Inr ys \<Rightarrow> Inr (y # ys)))"

definition sequential_cell :: "Board \<Rightarrow> nat \<Rightarrow> nat \<Rightarrow> error + 32 word" where
  "sequential_cell board r c =
     (case updateCell (int r) (int c) board of Inl e \<Rightarrow> Inl e | Inr b \<Rightarrow> Inr (of_bool b))"

definition sequential_step :: "Board \<Rightarrow> error + Board" where
  "sequential_step board =
     map_err (\<lambda>r. map_err (sequential_cell board r) [0..<length (board ! r)]) [0..<length board]"

section \<open>The simulation driver: \<^verbatim>\<open>main\<close>\<close>

text \<open>
  What the program does not decide is its environment: the C library's \<^verbatim>\<open>atoi\<close>; the
  value of the \<open>k\<close>-th call of \<^verbatim>\<open>rand()\<close> after \<^verbatim>\<open>srand(seed)\<close>, a number from 0 to
  \<^verbatim>\<open>RAND_MAX\<close>; the microseconds that \<^verbatim>\<open>hrclock\<close> measures between its two readings;
  and, for each step of the simulation, the interleaving of the threads (threads
  version) or the order in which OpenMP runs the iterations (OpenMP version).
\<close>

record environment =
  atoi :: "string \<Rightarrow> int"
  rand :: "int \<Rightarrow> nat \<Rightarrow> nat"
  elapsed_usec :: int
  schedules :: "nat \<Rightarrow> nat list"
  orders :: "nat \<Rightarrow> nat list"

text \<open>
  \<^verbatim>\<open>initializeBoard\<close> (the same text in both files): \<^verbatim>\<open>nrows\<close> rows of \<^verbatim>\<open>ncols\<close> cells
  \<^verbatim>\<open>rand()%2\<close>, drawn row after row. A count that is not positive gives no row, or
  empty rows.
\<close>

definition initializeBoard :: "(int \<Rightarrow> nat \<Rightarrow> nat) \<Rightarrow> int \<Rightarrow> int \<Rightarrow> int \<Rightarrow> Board" where
  "initializeBoard rnd nrows ncols seed =
     map (\<lambda>i. map (\<lambda>j. of_nat (rnd seed (i * nat ncols + j) mod 2)) [0..<nat ncols])
       [0..<nat nrows]"

text \<open>
  The loop \<^verbatim>\<open>for (int i = 0; i < iters; i++) updateBoard(&board, nw);\<close> of each
  \<^verbatim>\<open>main\<close>. The calls of \<^verbatim>\<open>printBoard\<close> and \<^verbatim>\<open>usleep\<close> in it are compiled only with
  \<^verbatim>\<open>DEBUG\<close> defined and are not part of the model.
\<close>

function main_loop_par :: "(nat \<Rightarrow> nat list) \<Rightarrow> int \<Rightarrow> int \<Rightarrow> Board \<Rightarrow> int \<Rightarrow> error + Board" where
  "main_loop_par sched i iters board nw =
     (if i < iters
      then (case updateBoard_par (sched (nat i)) board nw of
              Inl e \<Rightarrow> Inl e
            | Inr board' \<Rightarrow> main_loop_par sched (i + 1) iters board' nw)
      else Inr board)"
  by pat_completeness auto
termination
  by (relation "measure (\<lambda>(sched, i, iters, board, nw). nat (iters - i))") auto

declare main_loop_par.simps [simp del]

function main_loop_omp :: "(nat \<Rightarrow> nat list) \<Rightarrow> int \<Rightarrow> int \<Rightarrow> Board \<Rightarrow> int \<Rightarrow> error + Board" where
  "main_loop_omp ord i iters board nw =
     (if i < iters
      then (case updateBoard_omp (ord (nat i)) board nw of
              Inl e \<Rightarrow> Inl e
            | Inr board' \<Rightarrow> main_loop_omp ord (i + 1) iters board' nw)
      else Inr board)"
  by pat_completeness auto
termination
  by (relation "measure (\<lambda>(ord, i, iters, board, nw). nat (iters - i))") auto

declare main_loop_omp.simps [simp del]

text \<open>
  The same loops with a log of their calls: every call \<^verbatim>\<open>updateBoard(&board, nw)\<close> adds
  to the log the worker count it is given (in the OpenMP version this is also the
  argument of \<^verbatim>\<open>num_threads\<close>). The log is how the model shows which worker count a
  \<^verbatim>\<open>main\<close> runs its steps with.
\<close>

function main_loop_par_log ::
  "(nat \<Rightarrow> nat list) \<Rightarrow> int \<Rightarrow> int \<Rightarrow> Board \<Rightarrow> int \<Rightarrow> int list \<Rightarrow> error + Board \<times> int list" where
  "main_loop_par_log sched i iters board nw calls =
     (if i < iters
      then (case updateBoard_par (sched (nat i)) board nw of
              Inl e \<Rightarrow> Inl e
            | Inr board' \<Rightarrow> main_loop_par_log sched (i + 1) iters board' nw (calls @ [nw]))
      else Inr (board, calls))"
  by pat_completeness auto
termination
  by (relation "measure (\<lambda>(sched, i, iters, board, nw, calls). nat (iters - i))") auto

declare main_loop_par_log.simps [simp del]

function main_loop_omp_log ::
  "(nat \<Rightarrow> nat list) \<Rightarrow> int \<Rightarrow> int \<Rightarrow> Board \<Rightarrow> int \<Rightarrow> int list \<Rightarrow> error + Board \<times> int list" where
  "main_loop_omp_log ord i iters board nw calls =
     (if i < iters
      then (case updateBoard_omp (ord (nat i)) board nw of
              Inl e \<Rightarrow> Inl e
            | Inr board' \<Rightarrow> main_loop_omp_log ord (i + 1) iters board' nw (calls @ [nw]))
      else Inr (board, calls))"
  by pat_completeness auto
termination
  by (relation "measure (\<lambda>(ord, i, iters, board, nw, calls). nat (iters - i))") auto

declare main_loop_omp_log.simps [simp del]

text \<open>
  What is sent to \<^verbatim>\<open>std::cout\<close>: strings and numbers. \<^verbatim>\<open>usec / 1000\<close> is the division
  of C++, which rounds towards zero.
\<close>

datatype printed = Str string | Num int

definition c_div :: "int \<Rightarrow> int \<Rightarrow> int" where
  "c_div a b = sgn a * sgn b * (\<bar>a\<bar> div \<bar>b\<bar>)"

text \<open>
  The usage line. When \<open>argc\<close> is 0, \<^verbatim>\<open>argv[0]\<close> is the null pointer: sending it to
  \<^verbatim>\<open>std::cout\<close> puts the stream in its failed state, and what follows is not printed.
\<close>

definition usage :: "string list \<Rightarrow> printed list" where
  "usage argv =
     (case argv of
        [] \<Rightarrow> [Str ''Usage: '']
      | prog # _ \<Rightarrow>
          [Str ''Usage: '', Str prog,
           Str ('' nrows ncols iters seed sleeptime nworkers'' @ [CHR 0x0A])])"

definition spent :: "environment \<Rightarrow> printed list" where
  "spent env =
     [Str ''Simulation spent: '', Num (c_div (elapsed_usec env) 1000),
      Str ('' msec'' @ [CHR 0x0A])]"

text \<open>
  How a run of \<^verbatim>\<open>main\<close> ends: what was printed, the value \<^verbatim>\<open>main\<close> returns, the board
  it holds when it returns (none when it returns before \<^verbatim>\<open>initializeBoard\<close>), and the
  log of its calls of \<^verbatim>\<open>updateBoard\<close>.
\<close>

record outcome =
  printed_items :: "printed list"
  exit_status :: int
  final_board :: "Board option"
  update_calls :: "int list"

text \<open>
  \<^verbatim>\<open>main\<close> of \<^verbatim>\<open>gol-par.cpp\<close>; \<open>argc\<close> is the length of \<open>argv\<close>. The result is the
  outcome of the run, or the error that ended the process. The statement
  \<^verbatim>\<open>if(nw > nrows) { std::cout << "Warning: ..." << std::endl; nw = nrows; }\<close> bounds the
  worker count before the loop. \<^verbatim>\<open>msec = atoi(argv[5])\<close> is only used under \<^verbatim>\<open>DEBUG\<close>. A
  machine that runs out of memory or of threads is not part of the model.
\<close>

definition main_par :: "environment \<Rightarrow> string list \<Rightarrow> error + outcome" where
  "main_par env argv =
     (if int (length argv) \<noteq> 7
      then Inr \<lparr>printed_items = usage argv, exit_status = -1, final_board = None,
                update_calls = []\<rparr>
      else (let nrows = atoi env (argv ! 1);
                ncols = atoi env (argv ! 2);
                iters = atoi env (argv ! 3);
                seed = atoi env (argv ! 4);
                nw = atoi env (argv ! 6);
                (warning, nw) =
                  (if nw > nrows
                   then ([Str ''Warning: bounding workers with nrows.'', Str [CHR 0x0A]], nrows)
                   else ([], nw));
                board = initializeBoard (rand env) nrows ncols seed
            in case main_loop_par_log (schedules env) 0 iters board nw [] of
                 Inl e \<Rightarrow> Inl e
               | Inr (board', calls) \<Rightarrow>
                   Inr \<lparr>printed_items = warning @ spent env, exit_status = 0,
                        final_board = Some board', update_calls = calls\<rparr>))"

text \<open>
  \<^verbatim>\<open>main\<close> of \<^verbatim>\<open>gol-omp.cpp\<close>: the same text without the statement that bounds \<^verbatim>\<open>nw\<close>.
\<close>

definition main_omp :: "environment \<Rightarrow> string list \<Rightarrow> error + outcome" where
  "main_omp env argv =
     (if int (length argv) \<noteq> 7
      then Inr \<lparr>printed_items = usage argv, exit_status = -1, final_board = None,
                update_calls = []\<rparr>
      else (let nrows = atoi env (argv ! 1);
                ncols = atoi env (argv ! 2);
                iters = atoi env (argv ! 3);
                seed = atoi env (argv ! 4);
                nw = atoi env (argv ! 6);
                board = initializeBoard (rand env) nrows ncols seed
            in case main_loop_omp_log (orders env) 0 iters board nw [] of
                 Inl e \<Rightarrow> Inl e
               | Inr (board', calls) \<Rightarrow>
                   Inr \<lparr>printed_items = spent env, exit_status = 0,
                        final_board = Some board', update_calls = calls\<rparr>))"

text \<open>
  The reference for a whole simulation: \<open>n\<close> generations, each the sequential step.
\<close>

fun generations :: "nat \<Rightarrow> Board \<Rightarrow> error + Board" where
  "generations 0 board = Inr board"
| "generations (Suc n) board =
     (case sequential_step board of
        Inl e \<Rightarrow> Inl e
      | Inr board' \<Rightarrow> generations n board')"

text \<open>
  The board \<open>b\<close> holds, cell by cell, what \<^verbatim>\<open>updateCell\<close> returns on \<open>board\<close>, as the
  \<^verbatim>\<open>int\<close> 0 or 1.
\<close>

definition updated_cells :: "Board \<Rightarrow> Board \<Rightarrow> bool" where
  "updated_cells board b =
     (\<forall>r \<in> {0..<length board}. \<forall>c \<in> {0..<length (board ! r)}.
        sequential_cell board r c = Inr (b ! r ! c))"

text \<open>
  A well-formed invocation: the program name and six arguments that \<^verbatim>\<open>atoi\<close> reads as
  positive \<^verbatim>\<open>int\<close>s, the numbers of rows and of columns greater than 1.
\<close>

definition well_formed :: "environment \<Rightarrow> string list \<Rightarrow> bool" where
  "well_formed env argv =
     (length argv = 7
      \<and> (\<forall>k \<in> {1..6}. 1 \<le> atoi env (argv ! k) \<and> atoi env (argv ! k) \<le> INT_MAX)
      \<and> 1 < atoi env (argv ! 1) \<and> 1 < atoi env (argv ! 2))"


definition binary_cells :: "Board \<Rightarrow> bool" where
  "binary_cells board = (\<forall>row \<in> set board. \<forall>x \<in> set row. x = 0 \<or> x = 1)"

text \<open>Two boards of the same shape: as many rows, and row by row as many cells.\<close>

definition same_shape :: "Board \<Rightarrow> Board \<Rightarrow> bool" where
  "same_shape b' b = (map length b' = map length b)"

section \<open>Closed forms used in the proofs\<close>

text \<open>
  The boundaries of the static block partition: \<open>chunk_bound n nw i\<close> is the number of
  rows given to the workers before worker \<open>i\<close>, so worker \<open>i\<close> has the rows from
  \<open>chunk_bound n nw i\<close> to \<open>chunk_bound n nw (i + 1) - 1\<close>.
\<close>

definition chunk_bound :: "nat \<Rightarrow> int \<Rightarrow> int \<Rightarrow> int" where
  "chunk_bound n nw i = i * (int n div nw) + min i (int n mod nw)"

definition nth_range :: "nat \<Rightarrow> int \<Rightarrow> nat \<Rightarrow> Range" where
  "nth_range n nw k =
     \<lparr>range_start = chunk_bound n nw (int k), range_end = chunk_bound n nw (int k + 1) - 1\<rparr>"

text \<open>
  The new board as a total function of the old one: what \<^verbatim>\<open>updateCell\<close> returns for a
  cell of the board, the row of these values, and the board of these rows.
\<close>

definition new_cell_of :: "Board \<Rightarrow> nat \<Rightarrow> nat \<Rightarrow> 32 word" where
  "new_cell_of board r c =
     of_bool (transition_rule (board ! r ! c \<noteq> 0)
                (sum_list (map (guarded_row board (int r) (int c)) [-1, 0, 1])))"

definition new_row_of :: "Board \<Rightarrow> nat \<Rightarrow> Row" where
  "new_row_of board r = map (new_cell_of board r) [0..<length (board ! r)]"

definition new_board_of :: "Board \<Rightarrow> Board" where
  "new_board_of board = map (new_row_of board) [0..<length board]"

text \<open>Boards in which the given rows already hold their new value.\<close>

definition rows_done :: "Board \<Rightarrow> Board \<Rightarrow> nat set \<Rightarrow> bool" where
  "rows_done board new_board A =
     (length new_board = length board \<and> (\<forall>j \<in> A. new_board ! j = new_row_of board j))"

text \<open>The rows a worker still has to compute.\<close>

definition pending :: "worker \<Rightarrow> nat set" where
  "pending w = {j. next_row w \<le> int j \<and> int j \<le> last_row w}"

definition worker_ok :: "nat \<Rightarrow> worker \<Rightarrow> bool" where
  "worker_ok n w = (next_row w \<le> last_row w \<longrightarrow> 0 \<le> next_row w \<and> last_row w < int n)"

text \<open>
  The invariant of a run of the threads: the rows already done, together with the rows
  the workers still have to compute, are all the rows of the board.
\<close>

definition covered :: "Board \<Rightarrow> worker list \<times> Board \<Rightarrow> bool" where
  "covered board st =
     (\<exists>A. rows_done board (snd st) A
          \<and> (\<forall>w \<in> set (fst st). worker_ok (length board) w)
          \<and> {0..<length board} \<subseteq> A \<union> (\<Union>w \<in> set (fst st). pending w))"

section \<open>Boards used as examples\<close>

text \<open>The vertical blinker on a 3x3 board.\<close>

definition blinker :: Board where
  "blinker = [[0, 1, 0], [0, 1, 0], [0, 1, 0]]"

text \<open>
  The horizontal blinker, a board of arbitrary integers and its next generation, a still
  life, and a board of dead cells.
\<close>

definition horizontal :: Board where
  "horizontal = [[0, 0, 0], [1, 1, 1], [0, 0, 0]]"

definition any_ints :: Board where
  "any_ints = [[5, 0, -2], [0, 7, 0]]"

definition stepped :: Board where
  "stepped = [[0, 0, 0], [0, 1, 0]]"

definition tub :: Board where
  "tub = [[0, 1, 0], [1, 0, 1], [0, 1, 0]]"


text \<open>
  An environment and a command line for the examples: \<^verbatim>\<open>atoi\<close> on strings of decimal
  digits, some sequence of random numbers, 2500 microseconds on the clock.
\<close>

definition decimal :: "string \<Rightarrow> int" where
  "decimal s = foldl (\<lambda>a ch. 10 * a + (int (of_char ch) - 48)) 0 s"

definition example_env :: environment where
  "example_env =
     \<lparr>atoi = decimal, rand = (\<lambda>seed k. nat \<bar>seed\<bar> + k * k), elapsed_usec = 2500,
      schedules = (\<lambda>i. [1, 0, 1]), orders = (\<lambda>i. [2, 0, 1])\<rparr>"

definition example_argv :: "string list" where
  "example_argv = [''gol'', ''3'', ''3'', ''2'', ''1'', ''1'', ''5'']"

section \<open>Properties of \<^verbatim>\<open>updateCell\<close>\<close>

lemma at_vec_in: "0 \<le> i \<Longrightarrow> i < int (length v) \<Longrightarrow> at_vec v i = Inr (v ! nat i)"
  by (simp add: at_vec_def)

lemma cell_at_in:
  "0 \<le> r \<Longrightarrow> r < int (length board) \<Longrightarrow> 0 \<le> c \<Longrightarrow> c < int (length (board ! nat r))
   \<Longrightarrow> cell_at board r c = Inr (board ! nat r ! nat c)"
  by (simp add: cell_at_def at_vec_def)

lemma offcol_loop_sum:
  assumes "0 \<le> r + offset" "r + offset < int (length board)"
  shows "offcol_loop board (board ! nat (r + offset)) r c offset offs n
     = Inr (n + sum_list (map (guarded_cell board r c offset) offs))"
proof (induction offs arbitrary: n)
  case Nil
  show ?case by simp
next
  case (Cons offcol rest)
  show ?case
  proof (cases "(offcol \<noteq> 0 \<or> offset \<noteq> 0) \<and> 0 \<le> c + offcol
                 \<and> c + offcol < int (length (board ! nat (r + offset)))")
    case True
    then have "cell_at board (r + offset) (c + offcol)
                 = Inr (board ! nat (r + offset) ! nat (c + offcol))"
      using assms by (simp add: cell_at_in)
    moreover have "guarded_cell board r c offset offcol = board ! nat (r + offset) ! nat (c + offcol)"
      using True by (simp add: guarded_cell_def)
    ultimately show ?thesis
      using True Cons.IH by (simp add: add.assoc)
  next
    case False
    then have "guarded_cell board r c offset offcol = 0"
      unfolding guarded_cell_def by (rule if_not_P)
    then show ?thesis
      using False Cons.IH by auto
  qed
qed

lemma offset_loop_sum:
  "offset_loop board r c offs n = Inr (n + sum_list (map (guarded_row board r c) offs))"
proof (induction offs arbitrary: n)
  case Nil
  show ?case by simp
next
  case (Cons offset rest)
  show ?case
  proof (cases "0 \<le> r + offset \<and> r + offset < int (length board)")
    case True
    then have "offcol_loop board (board ! nat (r + offset)) r c offset [-1, 0, 1] n
                 = Inr (n + guarded_row board r c offset)"
      by (simp add: offcol_loop_sum guarded_row_def del: offcol_loop.simps)
    then show ?thesis
      using True Cons.IH by (simp add: at_vec_in add.assoc del: offcol_loop.simps)
  next
    case False
    then have "guarded_row board r c offset = 0"
      unfolding guarded_row_def by (rule if_not_P)
    then show ?thesis
      using False Cons.IH by auto
  qed
qed

lemma updateCell_cases:
  "updateCell r c board =
     (case cell_at board r c of
        Inl e \<Rightarrow> Inl e
      | Inr v \<Rightarrow> Inr (transition_rule (v \<noteq> 0) (sum_list (map (guarded_row board r c) [-1, 0, 1]))))"
  unfolding updateCell_def offset_loop_sum transition_rule_def
  by (auto split: sum.splits bool.splits)

lemma row_len: "rectangular board ncols \<Longrightarrow> i < length board \<Longrightarrow> length (board ! i) = ncols"
  by (simp add: rectangular_def)

lemma guarded_eq_count:
  assumes "rectangular board ncols" "0 \<le> r" "r < int (length board)" "0 \<le> c" "c < int ncols"
  shows "sum_list (map (guarded_row board r c) [-1, 0, 1]) = neighbour_count board ncols r c"
proof -
  have len: "\<And>i. 0 \<le> i \<Longrightarrow> i < int (length board) \<Longrightarrow> length (board ! nat i) = ncols"
    using assms(1) by (simp add: row_len)
  have "guarded_row board r c (-1) = contribution board ncols (r + -1) (c + -1) + contribution board ncols (r + -1) (c + 0) + contribution board ncols (r + -1) (c + 1)"
    using assms len[of "r + -1"] by (simp add: guarded_row_def guarded_cell_def contribution_def in_board_def)
  moreover have "guarded_row board r c 0 = contribution board ncols (r + 0) (c + -1) + contribution board ncols (r + 0) (c + 1)"
    using assms len[of "r"] by (simp add: guarded_row_def guarded_cell_def contribution_def in_board_def)
  moreover have "guarded_row board r c 1 = contribution board ncols (r + 1) (c + -1) + contribution board ncols (r + 1) (c + 0) + contribution board ncols (r + 1) (c + 1)"
    using assms len[of "r + 1"] by (simp add: guarded_row_def guarded_cell_def contribution_def in_board_def)
  ultimately show ?thesis
    by (simp add: neighbour_count_def neighbour_offsets_def add.assoc)
qed

text \<open>
  Claim C1. On a rectangular board and for a cell \<open>(r, c)\<close> inside it, \<^verbatim>\<open>updateCell\<close>
  returns the Game of Life next state of the cell: the neighbour count is the sum of
  the eight positions of the 3x3 block around the cell, a position outside the board
  counting 0 and no position wrapping around; an alive cell (a cell that is not 0) is
  alive afterwards exactly when the count is 2 or 3, and a dead cell exactly when the
  count is 3.
\<close>

theorem updateCell_game_of_life:
  assumes "rectangular board ncols" "0 \<le> r" "r < int (length board)" "0 \<le> c" "c < int ncols"
  shows "updateCell r c board
           = Inr (transition_rule (board ! nat r ! nat c \<noteq> 0) (neighbour_count board ncols r c))"
proof -
  have "length (board ! nat r) = ncols" using assms by (simp add: row_len)
  then have "cell_at board r c = Inr (board ! nat r ! nat c)"
    using assms by (simp add: cell_at_in)
  then show ?thesis
    using guarded_eq_count[OF assms] by (simp add: updateCell_cases)
qed

theorem updateCell_game_of_life_witness:
  "rectangular blinker 3 \<and> (0::int) \<le> 1 \<and> (1::int) < int (length blinker) \<and> (1::int) < int (3::nat)
   \<and> updateCell 1 1 blinker
        = Inr (transition_rule (blinker ! nat 1 ! nat 1 \<noteq> 0) (neighbour_count blinker 3 1 1))
   \<and> neighbour_count blinker 3 1 1 = 2
   \<and> updateCell 1 1 blinker = Inr True"
proof -
  have h: "rectangular blinker 3" by (simp add: rectangular_def blinker_def)
  have n: "neighbour_count blinker 3 1 1 = 2"
    by (simp add: neighbour_count_def neighbour_offsets_def contribution_def in_board_def blinker_def)
  have len: "(1::int) < int (length blinker)" by (simp add: blinker_def)
  have c: "blinker ! nat 1 ! nat 1 = 1" by (simp add: blinker_def)
  show ?thesis
    using h n len c updateCell_game_of_life[OF h, of 1 1] by (simp add: transition_rule_def)
qed

text \<open>
  Claim C9. On a rectangular board and for a cell \<open>(r, c)\<close> inside it, every element
  access of \<^verbatim>\<open>updateCell\<close> is within bounds: the guarded reads of the neighbours and
  the reads of the centre cell \<^verbatim>\<open>board.at(r).at(c)\<close> all succeed, so the call returns a
  value and the \<^verbatim>\<open>std::out_of_range\<close> branch of \<^verbatim>\<open>at\<close> is never taken. (An access out
  of bounds is the result \<open>Inl OutOfRange\<close> of the model, which every later step
  passes on.)
\<close>

theorem updateCell_total:
  assumes "rectangular board ncols" "0 \<le> r" "r < int (length board)" "0 \<le> c" "c < int ncols"
  shows "\<exists>alive. updateCell r c board = Inr alive"
proof -
  have "length (board ! nat r) = ncols" using assms by (simp add: row_len)
  then have "cell_at board r c = Inr (board ! nat r ! nat c)"
    using assms by (simp add: cell_at_in)
  then show ?thesis by (simp add: updateCell_cases)
qed

theorem updateCell_total_witness:
  "rectangular blinker 3 \<and> (0::int) \<le> 2 \<and>  (2::int) < int (length blinker)  \<and> (0::int) \<le> 0 \<and> (0::int) < int (3::nat)
   \<and> (\<exists>alive. updateCell 2 0 blinker = Inr alive)"
proof -
  have h: "rectangular blinker 3" by (simp add: rectangular_def blinker_def)
  have len: "(2::int) < int (length blinker)" by (simp add: blinker_def)
  show ?thesis
    using h len updateCell_total[OF h _ len, of 0] by simp
qed

section \<open>The static block partition\<close>

lemma to_size_t_id: "0 \<le> x \<Longrightarrow> x < 2 ^ 64 \<Longrightarrow> to_size_t x = x"
  by (simp add: to_size_t_def)

lemma to_int_to_size_t: 
  assumes "- (2 ^ 31) \<le> x" "x < 2 ^ 31"
  shows "to_int (to_size_t x) = x"
proof -
  have "(2::int) ^ 32 dvd 2 ^ 64" by (simp add: le_imp_power_dvd)
  then have "(x mod 2 ^ 64 + 2 ^ 31) mod 2 ^ 32 = (x + 2 ^ 31) mod (2 ^ 32 :: int)"
    by (metis mod_add_left_eq mod_mod_cancel)
  moreover have "(x + 2 ^ 31) mod (2 ^ 32 :: int) = x + 2 ^ 31"
    using assms by simp
  ultimately show ?thesis by (simp add: to_int_def to_size_t_def)
qed

lemma chunk_bound_0: "0 < nw \<Longrightarrow> chunk_bound n nw 0 = 0"
  by (simp add: chunk_bound_def)

lemma chunk_bound_Suc:
  "chunk_bound n nw (i + 1) = chunk_bound n nw i + int n div nw + (if i < int n mod nw then 1 else 0)"
  by (simp add: chunk_bound_def algebra_simps min_def)

lemma chunk_bound_nw:
  assumes "0 < nw"
  shows "chunk_bound n nw nw = int n"
proof -
  have "int n mod nw < nw" using assms by simp
  then have "min nw (int n mod nw) = int n mod nw" by simp
  then show ?thesis by (simp add: chunk_bound_def)
qed

lemma chunk_bound_mono:
  assumes "0 < nw" "i \<le> j"
  shows "chunk_bound n nw i \<le> chunk_bound n nw j"
proof -
  have "0 \<le> int n div nw" using assms(1) by (simp add: pos_imp_zdiv_nonneg_iff)
  then have "i * (int n div nw) \<le> j * (int n div nw)"
    using assms(2) by (rule mult_right_mono[rotated])
  moreover have "min i (int n mod nw) \<le> min j (int n mod nw)"
    using assms(2) by simp
  ultimately show ?thesis by (simp add: chunk_bound_def)
qed

lemma chunk_bound_nonneg: "0 < nw \<Longrightarrow> 0 \<le> i \<Longrightarrow> 0 \<le> chunk_bound n nw i"
  using chunk_bound_mono[of nw 0 i n] by (simp add: chunk_bound_0)

lemma chunk_bound_le: "0 < nw \<Longrightarrow> i \<le> nw \<Longrightarrow> chunk_bound n nw i \<le> int n"
  using chunk_bound_mono[of nw i nw n] by (simp add: chunk_bound_nw)

lemma last_map_nth_range:
  "0 < k \<Longrightarrow> last (map (nth_range n nw) [0..<k]) = nth_range n nw (k - 1)"
  by (cases k) simp_all

lemma ranges_loop_step:
  assumes nw: "1 \<le> nw" "nw \<le> INT_MAX" and n: "int n \<le> INT_MAX" and i: "i < nat nw"
  shows "ranges_loop n nw (int n div nw) (int n mod nw) (int i) (map (nth_range n nw) [0..<i])
         = ranges_loop n nw (int n div nw) (int n mod nw) (int i + 1) (map (nth_range n nw) [0..<Suc i])"
proof -
  let ?b = "chunk_bound n nw"
  let ?base = "int n div nw" and ?rem = "int n mod nw"
  let ?start = "if int i = 0 then 0 else range_end (last (map (nth_range n nw) [0..<i])) + 1"
  have start: "?start = ?b (int i)"
  proof (cases "i = 0")
    case True then show ?thesis using nw by (simp add: chunk_bound_0)
  next
    case False
    then have "range_end (last (map (nth_range n nw) [0..<i])) = ?b (int i) - 1"
      by (simp add: last_map_nth_range nth_range_def of_nat_diff)
    with False show ?thesis by simp
  qed
  have b0: "0 \<le> ?b (int i)" using nw by (simp add: chunk_bound_nonneg)
  have bS: "?b (int i + 1) \<le> int n" using nw i by (simp add: chunk_bound_le)
  have bi: "?b (int i) \<le> int n" using nw i by (simp add: chunk_bound_le)
  have rem: "0 \<le> ?rem" "?rem < nw" using nw by simp_all
  have base: "0 \<le> ?base" using nw by (simp add: pos_imp_zdiv_nonneg_iff)
  have step: "?b (int i + 1) = ?b (int i) + ?base + (if int i < ?rem then 1 else 0)"
    by (rule chunk_bound_Suc)
  have sz_start: "to_size_t (?b (int i)) = ?b (int i)"
    using b0 bi n by (simp add: to_size_t_id INT_MAX_def)
  have sz_i: "to_size_t (int i) = int i"
    using i nw by (simp add: to_size_t_id INT_MAX_def)
  let ?end0 = "to_int (if int i \<noteq> nw - 1
                        then to_size_t (to_size_t (?b (int i)) + ?base - 1)
                        else to_size_t (int n - 1))"
  let ?end1 = "if to_size_t (int i) < ?rem then ?end0 + 1 else ?end0"
  have end1: "?end1 = ?b (int i + 1) - 1"
  proof (cases "int i = nw - 1")
    case True
    then have "\<not> int i < ?rem" using rem(2) by linarith
    moreover have "?b (int i + 1) = int n" using True nw by (simp add: chunk_bound_nw)
    moreover have "to_int (to_size_t (int n - 1)) = int n - 1"
      using n by (simp add: to_int_to_size_t INT_MAX_def)
    ultimately show ?thesis unfolding sz_i using True by simp
  next
    case False
    have "- (2 ^ 31) \<le> ?b (int i) + ?base - 1" using b0 base by simp
    moreover have "?b (int i) + ?base - 1 < 2 ^ 31"
      using step bS n by (simp add: INT_MAX_def split: if_splits)
    ultimately have "to_int (to_size_t (?b (int i) + ?base - 1)) = ?b (int i) + ?base - 1"
      by (rule to_int_to_size_t)
    then show ?thesis unfolding sz_start sz_i using False step by simp
  qed
  have "int i < nw" using i by simp
  then have "ranges_loop n nw ?base ?rem (int i) (map (nth_range n nw) [0..<i])
        = ranges_loop n nw ?base ?rem (int i + 1)
            (map (nth_range n nw) [0..<i] @ [\<lparr>range_start = ?start, range_end =
               (let end0 = to_int (if int i \<noteq> nw - 1
                        then to_size_t (to_size_t ?start + ?base - 1)
                        else to_size_t (int n - 1)) in if to_size_t (int i) < ?rem then end0 + 1 else end0)\<rparr>])"
    by (subst ranges_loop.simps) (simp add: Let_def)
  also have "\<dots> = ranges_loop n nw ?base ?rem (int i + 1)
            (map (nth_range n nw) [0..<i] @ [\<lparr>range_start = ?b (int i), range_end = ?end1\<rparr>])"
    unfolding start Let_def by (rule refl)
  also have "\<lparr>range_start = ?b (int i), range_end = ?end1\<rparr> = nth_range n nw i"
    unfolding end1 by (simp add: nth_range_def)
  finally show ?thesis by simp
qed

lemma ranges_loop_from:
  assumes nw: "1 \<le> nw" "nw \<le> INT_MAX" and n: "int n \<le> INT_MAX"
  shows "k \<le> nat nw \<Longrightarrow>
         ranges_loop n nw (int n div nw) (int n mod nw) (int (nat nw - k)) (map (nth_range n nw) [0..<nat nw - k])
         = map (nth_range n nw) [0..<nat nw]"
proof (induction k)
  case 0
  have "\<not> int (nat nw) < nw" by simp
  then show ?case by (subst ranges_loop.simps) simp
next
  case (Suc k)
  then have lt: "nat nw - Suc k < nat nw" by simp
  have eq: "Suc (nat nw - Suc k) = nat nw - k" using Suc.prems by simp
  have "int (nat nw - Suc k) + 1 = int (nat nw - k)" using eq by linarith
  with ranges_loop_step[OF nw n lt] Suc.IH Suc.prems eq show ?case by simp
qed

lemma make_ranges_closed:
  assumes nw: "1 \<le> nw" "nw \<le> INT_MAX" and n: "int n \<le> INT_MAX"
  shows "make_ranges n nw = map (nth_range n nw) [0..<nat nw]"
proof -
  have "to_size_t nw = nw" using nw by (simp add: to_size_t_id INT_MAX_def)
  then show ?thesis
    using ranges_loop_from[OF nw n, of "nat nw"] by (simp add: make_ranges_def)
qed

section \<open>One step computes the new board\<close>

lemma updateCell_in:
  "r < length board \<Longrightarrow> c < length (board ! r) \<Longrightarrow>
   updateCell (int r) (int c) board
     = Inr (transition_rule (board ! r ! c \<noteq> 0)
              (sum_list (map (guarded_row board (int r) (int c)) [-1, 0, 1])))"
  by (simp add: updateCell_cases cell_at_in)

lemma push_cells_eq:
  "r < length board \<Longrightarrow> \<forall>c \<in> set cs. c < length (board ! r) \<Longrightarrow>
   push_cells board (int r) cs new_row = Inr (new_row @ map (new_cell_of board r) cs)"
  by (induction cs arbitrary: new_row) (simp_all add: updateCell_in new_cell_of_def)

lemma row_body_eq:
  assumes "r < length board" "length new_board = length board"
  shows "row_body board (int r) new_board = Inr (new_board[r := new_row_of board r])"
proof -
  have "push_cells board (int r) [0..<length (board ! r)] [] = Inr (new_row_of board r)"
    using assms(1) by (simp add: push_cells_eq new_row_of_def)
  then show ?thesis
    using assms by (simp add: row_body_def at_vec_in put_vec_def)
qed

lemma map_err_eq: "\<forall>x \<in> set xs. f x = Inr (g x) \<Longrightarrow> map_err f xs = Inr (map g xs)"
  by (induction xs) simp_all

lemma sequential_step_eq: "sequential_step board = Inr (new_board_of board)"
proof -
  have "\<forall>r \<in> set [0..<length board].
          map_err (sequential_cell board r) [0..<length (board ! r)] = Inr (new_row_of board r)"
    unfolding new_row_of_def
    by (intro ballI map_err_eq) (simp add: sequential_cell_def updateCell_in new_cell_of_def)
  then show ?thesis
    unfolding sequential_step_def new_board_of_def by (rule map_err_eq)
qed

lemma rows_done_all:
  "rows_done board new_board {0..<length board} \<Longrightarrow> new_board = new_board_of board"
  by (auto simp: rows_done_def new_board_of_def intro: nth_equalityI)

lemma rows_done_step:
  assumes "rows_done board new_board A" "r < length board"
  shows "rows_done board (new_board[r := new_row_of board r]) (insert r A)"
  using assms by (auto simp: rows_done_def nth_list_update)

lemma rows_done_mono: "rows_done board new_board A \<Longrightarrow> B \<subseteq> A \<Longrightarrow> rows_done board new_board B"
  by (auto simp: rows_done_def)

lemma rows_done_init: "rows_done board (replicate (length board) []) {}"
  by (simp add: rows_done_def)

subsection \<open>OpenMP\<close>

lemma omp_for_done:
  "rows_done board new_board A \<Longrightarrow> \<forall>r \<in> set order. r < length board \<Longrightarrow>
   \<exists>nb. omp_for board order new_board = Inr nb \<and> rows_done board nb (A \<union> set order)"
proof (induction order arbitrary: new_board A)
  case Nil
  then show ?case by simp
next
  case (Cons r rest)
  have len: "length new_board = length board" using Cons.prems(1) by (simp add: rows_done_def)
  have r: "r < length board" using Cons.prems(2) by simp
  have "rows_done board (new_board[r := new_row_of board r]) (insert r A)"
    using Cons.prems(1) r by (rule rows_done_step)
  from Cons.IH[OF this] Cons.prems(2)
  obtain nb where "omp_for board rest (new_board[r := new_row_of board r]) = Inr nb"
    "rows_done board nb (insert r A \<union> set rest)" by auto
  then show ?case by (simp add: row_body_eq[OF r len])
qed

lemma updateBoard_omp_eq:
  assumes "omp_order (length board) order"
  shows "updateBoard_omp order board nw = Inr (new_board_of board)"
proof -
  have "\<forall>r \<in> set order. r < length board" using assms by (simp add: omp_order_def)
  from omp_for_done[OF rows_done_init this]
  obtain nb where nb: "omp_for board order (replicate (length board) []) = Inr nb"
    "rows_done board nb ({} \<union> set order)" by blast
  have "rows_done board nb {0..<length board}" using nb(2) assms by (simp add: omp_order_def)
  then show ?thesis using nb(1) by (simp add: updateBoard_omp_def rows_done_all)
qed

subsection \<open>Threads\<close>

lemma compute_chunk_done:
  "rows_done board new_board A \<Longrightarrow> (r \<le> e \<Longrightarrow> 0 \<le> r \<and> e < int (length board)) \<Longrightarrow>
   \<exists>nb. compute_chunk board r e new_board = Inr nb
        \<and> rows_done board nb (A \<union> {j. r \<le> int j \<and> int j \<le> e})"
proof (induction board r e new_board arbitrary: A rule: compute_chunk.induct)
  case (1 board r e new_board)
  show ?case
  proof (cases "r \<le> e")
    case False
    then have "A \<union> {j. r \<le> int j \<and> int j \<le> e} = A" by auto
    with False "1.prems"(1) show ?thesis by (subst compute_chunk.simps) simp
  next
    case True
    then have r: "0 \<le> r" "e < int (length board)" using "1.prems"(2) by simp_all
    then have rn: "nat r < length board" using True by linarith
    have len: "length new_board = length board" using "1.prems"(1) by (simp add: rows_done_def)
    let ?nb = "new_board[nat r := new_row_of board (nat r)]"
    have body: "row_body board r new_board = Inr ?nb"
      using row_body_eq[OF rn len] r(1) by simp
    have "rows_done board ?nb (insert (nat r) A)"
      using "1.prems"(1) rn by (rule rows_done_step)
    moreover have "r + 1 \<le> e \<Longrightarrow> 0 \<le> r + 1 \<and> e < int (length board)" using r by simp
    ultimately obtain nb where nb: "compute_chunk board (r + 1) e ?nb = Inr nb"
      "rows_done board nb (insert (nat r) A \<union> {j. r + 1 \<le> int j \<and> int j \<le> e})"
      using "1.IH"[OF True body] by blast
    have "A \<union> {j. r \<le> int j \<and> int j \<le> e} \<subseteq> insert (nat r) A \<union> {j. r + 1 \<le> int j \<and> int j \<le> e}"
      using r(1) by auto
    with nb(2) have "rows_done board nb (A \<union> {j. r \<le> int j \<and> int j \<le> e})"
      by (rule rows_done_mono)
    with nb(1) True body show ?thesis by (subst compute_chunk.simps) simp
  qed
qed

lemma join_all_done:
  "rows_done board new_board A \<Longrightarrow> \<forall>w \<in> set workers. worker_ok (length board) w \<Longrightarrow>
   \<exists>nb. join_all board workers new_board = Inr nb
        \<and> rows_done board nb (A \<union> (\<Union>w \<in> set workers. pending w))"
proof (induction workers arbitrary: new_board A)
  case Nil
  then show ?case by simp
next
  case (Cons w rest)
  have "next_row w \<le> last_row w \<Longrightarrow> 0 \<le> next_row w \<and> last_row w < int (length board)"
    using Cons.prems(2) by (simp add: worker_ok_def)
  from compute_chunk_done[OF Cons.prems(1) this]
  obtain nb where nb: "compute_chunk board (next_row w) (last_row w) new_board = Inr nb"
    "rows_done board nb (A \<union> pending w)" unfolding pending_def by blast
  from Cons.IH[OF nb(2)] Cons.prems(2)
  obtain nb' where nb': "join_all board rest nb = Inr nb'"
    "rows_done board nb' (A \<union> pending w \<union> (\<Union>w \<in> set rest. pending w))" by auto
  have "A \<union> (\<Union>w \<in> set (w # rest). pending w) = A \<union> pending w \<union> (\<Union>w \<in> set rest. pending w)"
    by auto
  with nb(1) nb' show ?case by simp
qed

lemma worker_step_covered:
  assumes "covered board st"
  shows "\<exists>st'. worker_step board t st = Inr st' \<and> covered board st'"
proof (cases "t < length (fst st) \<and> next_row (fst st ! t) \<le> last_row (fst st ! t)")
  case False
  then have "worker_step board t st = Inr st" by (auto simp: worker_step_def Let_def)
  then show ?thesis using assms by simp
next
  case True
  obtain A where A: "rows_done board (snd st) A"
      "\<forall>w \<in> set (fst st). worker_ok (length board) w"
      "{0..<length board} \<subseteq> A \<union> (\<Union>w \<in> set (fst st). pending w)"
    using assms unfolding covered_def by blast
  let ?ws = "fst st" and ?w = "fst st ! t"
  let ?r = "next_row ?w"
  let ?w' = "?w\<lparr>next_row := ?r + 1\<rparr>"
  have w_in: "?w \<in> set ?ws" using True by simp
  then have ok: "0 \<le> ?r" "last_row ?w < int (length board)"
    using A(2) True by (auto simp: worker_ok_def)
  then have rn: "nat ?r < length board" using True by linarith
  have len: "length (snd st) = length board" using A(1) by (simp add: rows_done_def)
  let ?nb = "(snd st)[nat ?r := new_row_of board (nat ?r)]"
  have body: "row_body board ?r (snd st) = Inr ?nb"
    using row_body_eq[OF rn len] ok(1) by simp
  have step: "worker_step board t st = Inr (?ws[t := ?w'], ?nb)"
    using True body by (simp add: worker_step_def Let_def)
  have done': "rows_done board ?nb (insert (nat ?r) A)"
    using A(1) rn by (rule rows_done_step)
  have ok': "\<forall>w \<in> set (?ws[t := ?w']). worker_ok (length board) w"
  proof
    fix w assume "w \<in> set (?ws[t := ?w'])"
    then have "w = ?w' \<or> w \<in> set ?ws" using set_update_subset_insert by fastforce
    then show "worker_ok (length board) w"
      using A(2) ok by (auto simp: worker_ok_def)
  qed
  have pend: "pending ?w \<subseteq> insert (nat ?r) (pending ?w')"
    using ok(1) by (auto simp: pending_def)
  have "(\<Union>w \<in> set ?ws. pending w) \<subseteq> insert (nat ?r) (\<Union>w \<in> set (?ws[t := ?w']). pending w)"
  proof
    fix j assume "j \<in> (\<Union>w \<in> set ?ws. pending w)"
    then obtain k where k: "k < length ?ws" "j \<in> pending (?ws ! k)"
      by (auto simp: in_set_conv_nth)
    show "j \<in> insert (nat ?r) (\<Union>w \<in> set (?ws[t := ?w']). pending w)"
    proof (cases "k = t")
      case True
      then have "j = nat ?r \<or> j \<in> pending ?w'" using k(2) pend by auto
      moreover have "?w' \<in> set (?ws[t := ?w'])" using k(1) True by (simp add: set_update_memI)
      ultimately show ?thesis by blast
    next
      case False
      then have "(?ws[t := ?w']) ! k = ?ws ! k" by simp
      moreover have "(?ws[t := ?w']) ! k \<in> set (?ws[t := ?w'])" using k(1) by simp
      ultimately show ?thesis using k(2) by auto
    qed
  qed
  with A(3) have "{0..<length board} \<subseteq> insert (nat ?r) A \<union> (\<Union>w \<in> set (?ws[t := ?w']). pending w)"
    by blast
  with done' ok' have "covered board (?ws[t := ?w'], ?nb)"
    unfolding covered_def by auto
  with step show ?thesis by blast
qed

lemma run_schedule_covered:
  "covered board st \<Longrightarrow> \<exists>st'. run_schedule board schedule st = Inr st' \<and> covered board st'"
proof (induction schedule arbitrary: st)
  case Nil
  then show ?case by simp
next
  case (Cons t rest)
  from worker_step_covered[OF Cons.prems]
  obtain st1 where "worker_step board t st = Inr st1" "covered board st1" by blast
  with Cons.IH[of st1] show ?case by auto
qed

lemma threads_done:
  assumes "covered board (workers, replicate (length board) [])"
  shows "(case run_schedule board schedule (workers, replicate (length board) []) of
            Inl e \<Rightarrow> Inl e
          | Inr st \<Rightarrow> join_all board (fst st) (snd st)) = Inr (new_board_of board)"
proof -
  from run_schedule_covered[OF assms]
  obtain st where st: "run_schedule board schedule (workers, replicate (length board) []) = Inr st"
    "covered board st" by blast
  then obtain A where A: "rows_done board (snd st) A"
      "\<forall>w \<in> set (fst st). worker_ok (length board) w"
      "{0..<length board} \<subseteq> A \<union> (\<Union>w \<in> set (fst st). pending w)"
    unfolding covered_def by blast
  from join_all_done[OF A(1) A(2)]
  obtain nb where nb: "join_all board (fst st) (snd st) = Inr nb"
    "rows_done board nb (A \<union> (\<Union>w \<in> set (fst st). pending w))" by blast
  from nb(2) A(3) have "rows_done board nb {0..<length board}" by (rule rows_done_mono)
  then have "nb = new_board_of board" by (rule rows_done_all)
  with st(1) nb(1) show ?thesis by simp
qed

section \<open>The threads cover the board\<close>

lemma chunk_cover:
  assumes "0 < nw"
  shows "k \<le> nat nw \<Longrightarrow> 0 \<le> j \<Longrightarrow> j < chunk_bound n nw (int k) \<Longrightarrow>
         \<exists>t<k. chunk_bound n nw (int t) \<le> j \<and> j < chunk_bound n nw (int t + 1)"
proof (induction k)
  case 0
  then show ?case using assms by (simp add: chunk_bound_0)
next
  case (Suc k)
  show ?case
  proof (cases "j < chunk_bound n nw (int k)")
    case True
    with Suc obtain t where "t < k" "chunk_bound n nw (int t) \<le> j" "j < chunk_bound n nw (int t + 1)"
      by auto
    then show ?thesis using less_Suc_eq by blast
  next
    case False
    have "int (Suc k) = int k + 1" by simp
    with False Suc.prems(3) show ?thesis by (metis lessI not_less)
  qed
qed

lemma spawn_nth_range:
  "spawn (nth_range n nw i)
     = \<lparr>next_row = chunk_bound n nw (int i), last_row = chunk_bound n nw (int i + 1) - 1\<rparr>"
  by (simp add: spawn_def nth_range_def)

lemma initial_covered:
  assumes nw: "1 \<le> nw" "nw \<le> INT_MAX" and n: "int (length board) \<le> INT_MAX"
  shows "covered board (map spawn (make_ranges (length board) nw), replicate (length board) [])"
proof -
  let ?n = "length board"
  let ?ws = "map spawn (make_ranges ?n nw)"
  have ws: "?ws = map (\<lambda>i. spawn (nth_range ?n nw i)) [0..<nat nw]"
    using nw n by (simp add: make_ranges_closed)
  have ok: "\<forall>w \<in> set ?ws. worker_ok ?n w"
  proof
    fix w assume "w \<in> set ?ws"
    then obtain i where i: "i < nat nw" "w = spawn (nth_range ?n nw i)"
      unfolding ws by auto
    have "0 \<le> chunk_bound ?n nw (int i)" using nw by (simp add: chunk_bound_nonneg)
    moreover have "chunk_bound ?n nw (int i + 1) \<le> int ?n" using nw i(1) by (simp add: chunk_bound_le)
    ultimately show "worker_ok ?n w" by (simp add: worker_ok_def i(2) spawn_nth_range)
  qed
  have cov: "{0..<?n} \<subseteq> {} \<union> (\<Union>w \<in> set ?ws. pending w)"
  proof
    fix j assume "j \<in> {0..<?n}"
    then have "int j < chunk_bound ?n nw (int (nat nw))" using nw by (simp add: chunk_bound_nw)
    with chunk_cover[of nw "nat nw" "int j" ?n] nw
    obtain t where t: "t < nat nw" "chunk_bound ?n nw (int t) \<le> int j"
        "int j < chunk_bound ?n nw (int t + 1)" by auto
    then have "j \<in> pending (spawn (nth_range ?n nw t))"
      by (simp add: pending_def spawn_nth_range)
    moreover have "spawn (nth_range ?n nw t) \<in> set ?ws" unfolding ws using t(1) by simp
    ultimately show "j \<in> {} \<union> (\<Union>w \<in> set ?ws. pending w)" by blast
  qed
  show ?thesis
    unfolding covered_def using rows_done_init ok cov
    by (intro exI[of _ "{}"]) simp
qed

lemma updateBoard_par_eq:
  assumes nw: "1 \<le> nw" "nw \<le> INT_MAX" and n: "int (length board) \<le> INT_MAX"
  shows "updateBoard_par schedule board nw = Inr (new_board_of board)"
proof -
  have "to_size_t nw \<noteq> 0" using nw by (simp add: to_size_t_id INT_MAX_def)
  then show ?thesis
    using threads_done[OF initial_covered[OF nw n]] by (simp add: updateBoard_par_def Let_def)
qed

text \<open>
  Claim C3. For a board of \<open>nrows\<close> rows and \<open>1 \<le> nworkers \<le> nrows\<close> (with \<open>nrows\<close>
  an \<^verbatim>\<open>int\<close>, as \<^verbatim>\<open>range.end\<close> is), the ranges that \<^verbatim>\<open>updateBoard\<close> of the threads
  version builds are \<open>nworkers\<close> inclusive spans \<open>[start, end]\<close> that are sorted (each
  ends before the next starts), contiguous (the first starts at row 0, each next one
  starts right after the one before, the last ends at row \<open>nrows - 1\<close>), pairwise
  disjoint, and whose union is exactly the set of rows \<open>[0, nrows)\<close>; with
  \<open>base = nrows div nworkers\<close> and \<open>rem = nrows mod nworkers\<close>, each of the first \<open>rem\<close>
  ranges has \<open>base + 1\<close> rows and each other range has \<open>base\<close> rows.
\<close>

theorem make_ranges_partition:
  assumes "1 \<le> nworkers" "nworkers \<le> int nrows" "int nrows \<le> INT_MAX"
  shows "length (make_ranges nrows nworkers) = nat nworkers
       \<and> (\<forall>i j. i < j \<and> j < nat nworkers \<longrightarrow>
             range_end (make_ranges nrows nworkers ! i) < range_start (make_ranges nrows nworkers ! j))
       \<and> range_start (make_ranges nrows nworkers ! 0) = 0
       \<and> (\<forall>i. Suc i < nat nworkers \<longrightarrow>
             range_start (make_ranges nrows nworkers ! Suc i) = range_end (make_ranges nrows nworkers ! i) + 1)
       \<and> range_end (last (make_ranges nrows nworkers)) = int nrows - 1
       \<and> (\<forall>i j. i < nat nworkers \<and> j < nat nworkers \<and> i \<noteq> j \<longrightarrow>
             rows_of (make_ranges nrows nworkers ! i) \<inter> rows_of (make_ranges nrows nworkers ! j) = {})
       \<and> (\<Union>rg \<in> set (make_ranges nrows nworkers). rows_of rg) = {0..<int nrows}
       \<and> (\<forall>i < nat nworkers.
             range_end (make_ranges nrows nworkers ! i) - range_start (make_ranges nrows nworkers ! i) + 1
               = (if int i < int nrows mod nworkers
                  then int nrows div nworkers + 1 else int nrows div nworkers))"
proof -
  let ?rs = "make_ranges nrows nworkers"
  let ?b = "chunk_bound nrows nworkers"
  have nw: "1 \<le> nworkers" "nworkers \<le> INT_MAX" "0 < nworkers" using assms by simp_all
  have closed: "?rs = map (nth_range nrows nworkers) [0..<nat nworkers]"
    using nw(1,2) assms(3) by (rule make_ranges_closed)
  have len: "length ?rs = nat nworkers" by (simp add: closed)
  have st: "\<And>i. i < nat nworkers \<Longrightarrow> range_start (?rs ! i) = ?b (int i)"
    by (simp add: closed nth_range_def)
  have en: "\<And>i. i < nat nworkers \<Longrightarrow> range_end (?rs ! i) = ?b (int i + 1) - 1"
    by (simp add: closed nth_range_def)
  have sorted: "range_end (?rs ! i) < range_start (?rs ! j)" if "i < j" "j < nat nworkers" for i j
  proof -
    have "?b (int i + 1) \<le> ?b (int j)" using that nw(3) by (intro chunk_bound_mono) simp_all
    then show ?thesis using that by (simp add: st en)
  qed
  have first: "range_start (?rs ! 0) = 0" using nw by (simp add: st chunk_bound_0)
  have contig: "range_start (?rs ! Suc i) = range_end (?rs ! i) + 1" if "Suc i < nat nworkers" for i
    using that by (simp add: st en add.commute)
  have "?rs \<noteq> []" using len nw by auto
  then have "last ?rs = ?rs ! (nat nworkers - 1)"
    using len by (simp add: last_conv_nth)
  moreover have "int (nat nworkers - 1) + 1 = nworkers" using nw by simp
  ultimately have lst: "range_end (last ?rs) = int nrows - 1"
    using nw by (simp add: en chunk_bound_nw)
  have disj: "rows_of (?rs ! i) \<inter> rows_of (?rs ! j) = {}"
    if "i < nat nworkers" "j < nat nworkers" "i \<noteq> j" for i j
  proof (cases "i < j")
    case True
    then show ?thesis using sorted[of i j] that by (auto simp: rows_of_def)
  next
    case False
    then have "j < i" using that(3) by simp
    then show ?thesis using sorted[of j i] that by (auto simp: rows_of_def)
  qed
  have union: "(\<Union>rg \<in> set ?rs. rows_of rg) = {0..<int nrows}"
  proof (intro equalityI subsetI)
    fix x assume "x \<in> (\<Union>rg \<in> set ?rs. rows_of rg)"
    then obtain i where i: "i < nat nworkers" "x \<in> rows_of (?rs ! i)"
      using len by (auto simp: in_set_conv_nth)
    have "0 \<le> ?b (int i)" using nw by (simp add: chunk_bound_nonneg)
    moreover have "?b (int i + 1) \<le> int nrows" using nw i(1) by (simp add: chunk_bound_le)
    ultimately show "x \<in> {0..<int nrows}" using i by (simp add: rows_of_def st en)
  next
    fix x assume x: "x \<in> {0..<int nrows}"
    then have "x < ?b (int (nat nworkers))" using nw by (simp add: chunk_bound_nw)
    from chunk_cover[OF nw(3) _ _ this] x
    obtain t where t: "t < nat nworkers" "?b (int t) \<le> x" "x < ?b (int t + 1)" by auto
    then have "x \<in> rows_of (?rs ! t)" by (simp add: rows_of_def st en)
    moreover have "?rs ! t \<in> set ?rs" using t(1) len by simp
    ultimately show "x \<in> (\<Union>rg \<in> set ?rs. rows_of rg)" by blast
  qed
  have sizes: "range_end (?rs ! i) - range_start (?rs ! i) + 1
               = (if int i < int nrows mod nworkers
                  then int nrows div nworkers + 1 else int nrows div nworkers)"
    if "i < nat nworkers" for i
    using that by (simp add: st en chunk_bound_Suc)
  show ?thesis
    using len sorted first contig lst disj union sizes by blast
qed

theorem make_ranges_partition_witness:
  "(1::int) \<le> 3 \<and> (3::int) \<le> int 10 \<and> int 10 \<le> INT_MAX
   \<and> make_ranges 10 3 = [\<lparr>range_start = 0, range_end = 3\<rparr>, \<lparr>range_start = 4, range_end = 6\<rparr>,
                          \<lparr>range_start = 7, range_end = 9\<rparr>]
   \<and> length (make_ranges 10 3) = nat 3
   \<and> (\<Union>rg \<in> set (make_ranges 10 3). rows_of rg) = {0..<int 10}
   \<and> range_end (last (make_ranges 10 3)) = int 10 - 1"
proof -
  have h: "int 10 \<le> INT_MAX" by (simp add: INT_MAX_def)
  have v: "make_ranges 10 3 = [\<lparr>range_start = 0, range_end = 3\<rparr>, \<lparr>range_start = 4, range_end = 6\<rparr>,
                          \<lparr>range_start = 7, range_end = 9\<rparr>]"
    by code_simp
  show ?thesis
    using h v make_ranges_partition[of 3 10] by simp
qed

section \<open>The new board\<close>

lemma length_new_board_of: "length (new_board_of board) = length board"
  by (simp add: new_board_of_def)

lemma nth_new_board_of: "r < length board \<Longrightarrow> new_board_of board ! r = new_row_of board r"
  by (simp add: new_board_of_def)

lemma length_new_row_of: "length (new_row_of board r) = length (board ! r)"
  by (simp add: new_row_of_def)

lemma same_shape_new_board_of: "same_shape (new_board_of board) board"
  unfolding same_shape_def
  by (rule nth_equalityI) (simp_all add: length_new_board_of nth_new_board_of length_new_row_of)

lemma rectangular_new_board_of:
  "rectangular board ncols \<Longrightarrow> rectangular (new_board_of board) ncols"
  by (auto simp: rectangular_def new_board_of_def length_new_row_of)

lemma binary_new_board_of: "binary_cells (new_board_of board)"
  by (auto simp: binary_cells_def new_board_of_def new_row_of_def new_cell_of_def)

lemma funpow_length: "length ((new_board_of ^^ k) board) = length board"
  by (induction k) (simp_all add: length_new_board_of)






lemma main_loop_par_eq:
  assumes "1 \<le> nw" "nw \<le> INT_MAX" "int (length board) \<le> INT_MAX"
  shows "main_loop_par sched i iters board nw = Inr ((new_board_of ^^ nat (iters - i)) board)"
  using assms(3)
proof (induction "nat (iters - i)" arbitrary: i board)
  case 0
  then have "\<not> i < iters" by simp
  with 0 show ?case by (subst main_loop_par.simps) simp
next
  case (Suc k)
  then have lt: "i < iters" by linarith
  have k: "k = nat (iters - (i + 1))" using Suc.hyps(2) by linarith
  have len: "int (length (new_board_of board)) \<le> INT_MAX"
    using Suc.prems by (simp add: length_new_board_of)
  have "main_loop_par sched i iters board nw = main_loop_par sched (i + 1) iters (new_board_of board) nw"
    using lt updateBoard_par_eq[OF assms(1,2) Suc.prems] by (subst main_loop_par.simps) simp
  also have "\<dots> = Inr ((new_board_of ^^ k) (new_board_of board))"
    using Suc.hyps(1)[OF k len] k by simp
  also have "(new_board_of ^^ k) (new_board_of board) = (new_board_of ^^ nat (iters - i)) board"
    using Suc.hyps(2)[symmetric] by (simp add: funpow_swap1)
  finally show ?case .
qed

lemma main_loop_omp_eq:
  assumes "\<forall>k. omp_order (length board) (ord k)"
  shows "main_loop_omp ord i iters board nw = Inr ((new_board_of ^^ nat (iters - i)) board)"
  using assms
proof (induction "nat (iters - i)" arbitrary: i board)
  case 0
  then have "\<not> i < iters" by simp
  with 0 show ?case by (subst main_loop_omp.simps) simp
next
  case (Suc k)
  then have lt: "i < iters" by linarith
  have k: "k = nat (iters - (i + 1))" using Suc.hyps(2) by linarith
  have len: "\<forall>k. omp_order (length (new_board_of board)) (ord k)"
    using Suc.prems by (simp add: length_new_board_of)
  have "omp_order (length board) (ord (nat i))" using Suc.prems by simp
  then have "main_loop_omp ord i iters board nw = main_loop_omp ord (i + 1) iters (new_board_of board) nw"
    using lt by (subst main_loop_omp.simps) (simp add: updateBoard_omp_eq)
  also have "\<dots> = Inr ((new_board_of ^^ k) (new_board_of board))"
    using Suc.hyps(1)[OF k len] k by simp
  also have "(new_board_of ^^ k) (new_board_of board) = (new_board_of ^^ nat (iters - i)) board"
    using Suc.hyps(2)[symmetric] by (simp add: funpow_swap1)
  finally show ?case .
qed

lemma funpow_same_shape: "same_shape ((new_board_of ^^ k) board) board"
proof (induction k)
  case 0
  show ?case by (simp add: same_shape_def)
next
  case (Suc k)
  have "same_shape (new_board_of ((new_board_of ^^ k) board)) ((new_board_of ^^ k) board)"
    by (rule same_shape_new_board_of)
  with Suc show ?case by (simp add: same_shape_def)
qed

lemma funpow_rectangular:
  "rectangular board ncols \<Longrightarrow> rectangular ((new_board_of ^^ k) board) ncols"
  by (induction k) (simp_all add: rectangular_new_board_of)


section \<open>Facts about the examples\<close>

lemma blinker_facts:
  "rectangular blinker 3" "int (length blinker) \<le> INT_MAX" "omp_order (length blinker) [2, 0, 1]"
  "(2::int) \<le> int (length blinker)" "(3::int) \<le> int (length blinker)"
  by code_simp+

lemma any_ints_facts:
  "rectangular any_ints 3" "int (length any_ints) \<le> INT_MAX" "omp_order (length any_ints) [1, 0]"
  by code_simp+


lemma example_wf: "well_formed example_env example_argv"
  by code_simp

lemma example_orders: "omp_order (nat (atoi example_env (example_argv ! 1))) [2, 0, 1]"
  by code_simp

section \<open>One step and many steps\<close>

text \<open>
  Claim C2. For a rectangular board and a worker count \<open>1 \<le> nworkers \<le> nrows\<close>, the
  board after one call of \<^verbatim>\<open>updateBoard\<close> of the threads version, under every
  interleaving of the threads, is the board obtained by applying \<^verbatim>\<open>updateCell\<close> to every
  cell of the prior board one after the other, and the call returns. So the result does
  not depend on the worker count: two worker counts in \<open>[1, nrows]\<close> give the same board
  after one step and after every number of steps of the simulation loop.
\<close>

theorem updateBoard_par_sequential:
  assumes "rectangular board ncols"
    and "1 \<le> nworkers" "nworkers \<le> int (length board)"
    and "1 \<le> nworkers'" "nworkers' \<le> int (length board)"
    and "int (length board) \<le> INT_MAX"
  shows "updateBoard_par schedule board nworkers = sequential_step board
       \<and> (\<exists>new_board. sequential_step board = Inr new_board)
       \<and> updateBoard_par schedule board nworkers = updateBoard_par schedule' board nworkers'
       \<and> main_loop_par sched 0 iters board nworkers = main_loop_par sched' 0 iters board nworkers'
       \<and> (\<exists>final. main_loop_par sched 0 iters board nworkers = Inr final)"
proof -
  have nw: "nworkers \<le> INT_MAX" "nworkers' \<le> INT_MAX" using assms by simp_all
  show ?thesis
    using updateBoard_par_eq[OF assms(2) nw(1) assms(6)] updateBoard_par_eq[OF assms(4) nw(2) assms(6)]
      main_loop_par_eq[OF assms(2) nw(1) assms(6)] main_loop_par_eq[OF assms(4) nw(2) assms(6)]
    by (simp add: sequential_step_eq)
qed

theorem updateBoard_par_sequential_witness:
  "rectangular blinker 3 \<and> (1::int) \<le> 2 \<and> 2 \<le> int (length blinker)
   \<and> (1::int) \<le> 3 \<and> 3 \<le> int (length blinker) \<and> int (length blinker) \<le> INT_MAX
   \<and> updateBoard_par [1, 0, 1] blinker 2 = sequential_step blinker
   \<and> sequential_step blinker = Inr horizontal
   \<and> updateBoard_par [1, 0, 1] blinker 2 = updateBoard_par [2, 2, 0] blinker 3
   \<and> main_loop_par (\<lambda>i. [1, 0, 1]) 0 2 blinker 2 = main_loop_par (\<lambda>i. [2, 0]) 0 2 blinker 3"
proof -
  have v: "sequential_step blinker = Inr horizontal" by code_simp
  have a: "(1::int) \<le> 2" "(1::int) \<le> 3" by simp_all
  show ?thesis
    using blinker_facts v a
      updateBoard_par_sequential[OF blinker_facts(1) a(1) blinker_facts(4) a(2) blinker_facts(5)
        blinker_facts(2), of "[1, 0, 1]" "[2, 2, 0]" "\<lambda>i. [1, 0, 1]" 2 "\<lambda>i. [2, 0]"]
    by blast
qed

text \<open>
  Claim C4. For a rectangular board and a valid worker count, one step of the threads
  version with its static partition and one step of the OpenMP version with its dynamic
  schedule give the same board, whatever the interleaving of the threads and whatever
  the order in which OpenMP runs the iterations.
\<close>

theorem updateBoard_par_omp_same:
  assumes "rectangular board ncols"
    and "1 \<le> nworkers" "nworkers \<le> int (length board)" "int (length board) \<le> INT_MAX"
    and "omp_order (length board) order"
  shows "updateBoard_par schedule board nworkers = updateBoard_omp order board nworkers
       \<and> (\<exists>new_board. updateBoard_omp order board nworkers = Inr new_board)"
proof -
  have nw: "nworkers \<le> INT_MAX" using assms by simp
  show ?thesis
    using updateBoard_par_eq[OF assms(2) nw assms(4)] updateBoard_omp_eq[OF assms(5)] by simp
qed

theorem updateBoard_par_omp_same_witness:
  "rectangular blinker 3 \<and> (1::int) \<le> 2 \<and> 2 \<le> int (length blinker)
   \<and> int (length blinker) \<le> INT_MAX \<and> omp_order (length blinker) [2, 0, 1]
   \<and> updateBoard_par [1, 0, 1] blinker 2 = updateBoard_omp [2, 0, 1] blinker 2
   \<and> updateBoard_omp [2, 0, 1] blinker 2 = Inr horizontal"
proof -
  have v: "updateBoard_omp [2, 0, 1] blinker 2 = Inr horizontal" by code_simp
  show ?thesis
    using blinker_facts v
      updateBoard_par_omp_same[OF blinker_facts(1) _ blinker_facts(4) blinker_facts(2) blinker_facts(3),
        of "[1, 0, 1]"]
    by simp
qed

text \<open>
  Claim C5. For a rectangular board, a call of \<^verbatim>\<open>updateBoard\<close> of either version (with a
  positive worker count for the threads version, whose partition divides by it) returns
  a board with as many rows as before and with every row as long as before: the shape
  \<open>nrows \<times> ncols\<close> is the same after the step, and so after every number of steps of
  the simulation loop.
\<close>

theorem updateBoard_shape:
  assumes "rectangular board ncols"
    and "1 \<le> nworkers" "nworkers \<le> INT_MAX" "int (length board) \<le> INT_MAX"
    and "omp_order (length board) order" "\<forall>k. omp_order (length board) (ord k)"
  shows "(\<exists>b. updateBoard_par schedule board nworkers = Inr b
             \<and> length b = length board \<and> same_shape b board \<and> rectangular b ncols)
       \<and> (\<exists>b. updateBoard_omp order board nw = Inr b
             \<and> length b = length board \<and> same_shape b board \<and> rectangular b ncols)
       \<and> (\<exists>b. main_loop_par sched 0 iters board nworkers = Inr b
             \<and> length b = length board \<and> same_shape b board \<and> rectangular b ncols)
       \<and> (\<exists>b. main_loop_omp ord 0 iters board nw = Inr b
             \<and> length b = length board \<and> same_shape b board \<and> rectangular b ncols)"
  using updateBoard_par_eq[OF assms(2,3,4)] updateBoard_omp_eq[OF assms(5)]
    main_loop_par_eq[OF assms(2,3,4)] main_loop_omp_eq[OF assms(6)]
    rectangular_new_board_of[OF assms(1)] funpow_rectangular[OF assms(1)]
  by (simp add: same_shape_new_board_of length_new_board_of funpow_same_shape funpow_length)

theorem updateBoard_shape_witness:
  "rectangular blinker 3 \<and> (1::int) \<le> 2 \<and> (2::int) \<le> INT_MAX
   \<and> int (length blinker) \<le> INT_MAX \<and> omp_order (length blinker) [2, 0, 1]
   \<and> (\<forall>k. omp_order (length blinker) ((\<lambda>i. [2, 0, 1]) k))
   \<and> (\<exists>b. updateBoard_par [1, 0, 1] blinker 2 = Inr b
          \<and> length b = length blinker \<and> same_shape b blinker \<and> rectangular b 3)
   \<and> (\<exists>b. updateBoard_omp [2, 0, 1] blinker 2 = Inr b
          \<and> length b = length blinker \<and> same_shape b blinker \<and> rectangular b 3)
   \<and> (\<exists>b. main_loop_par (\<lambda>i. [1, 0, 1]) 0 3 blinker 2 = Inr b
          \<and> length b = length blinker \<and> same_shape b blinker \<and> rectangular b 3)
   \<and> (\<exists>b. main_loop_omp (\<lambda>i. [2, 0, 1]) 0 3 blinker 2 = Inr b
          \<and> length b = length blinker \<and> same_shape b blinker \<and> rectangular b 3)"
proof -
  have h: "(1::int) \<le> 2" "(2::int) \<le> INT_MAX" by (simp_all add: INT_MAX_def)
  have ord: "\<forall>k. omp_order (length blinker) ((\<lambda>i. [2, 0, 1]) k)" using blinker_facts(3) by simp
  show ?thesis
    using blinker_facts h ord
      updateBoard_shape[OF blinker_facts(1) h blinker_facts(2) blinker_facts(3) ord,
        of "[1, 0, 1]" 2 "\<lambda>i. [1, 0, 1]" 3]
    by blast
qed

lemma updated_cells_new_board_of: "updated_cells board (new_board_of board)"
  by (simp add: updated_cells_def sequential_cell_def updateCell_in nth_new_board_of
        new_row_of_def new_cell_of_def)

lemma funpow_Suc_last:
  "0 < k \<Longrightarrow> (new_board_of ^^ k) board = new_board_of ((new_board_of ^^ (k - 1)) board)"
  by (cases k) simp_all

text \<open>
  Claim C10. For a rectangular board whose cells are any integers, not only 0 and 1,
  one call of \<^verbatim>\<open>updateBoard\<close> (either version, a positive worker count) returns a board
  of the same shape in which every cell is the \<^verbatim>\<open>bool\<close> that \<^verbatim>\<open>updateCell\<close> returned for
  it, so exactly 0 or 1. So after every positive number of steps of the simulation loop
  the board has the shape of the first one, its cells are what \<^verbatim>\<open>updateCell\<close> returned
  on the board of the step before, and they are 0 or 1.
\<close>

theorem updateBoard_binary:
  assumes "rectangular board ncols"
    and "1 \<le> nworkers" "nworkers \<le> INT_MAX" "int (length board) \<le> INT_MAX"
    and "omp_order (length board) order" "\<forall>k. omp_order (length board) (ord k)"
  shows "(\<exists>b. updateBoard_par schedule board nworkers = Inr b
             \<and> same_shape b board \<and> updated_cells board b \<and> binary_cells b)
       \<and> (\<exists>b. updateBoard_omp order board nw = Inr b
             \<and> same_shape b board \<and> updated_cells board b \<and> binary_cells b)
       \<and> (0 < iters \<longrightarrow>
            (\<exists>prev b. main_loop_par sched 0 (iters - 1) board nworkers = Inr prev
                 \<and> main_loop_par sched 0 iters board nworkers = Inr b
                 \<and> same_shape b board \<and> updated_cells prev b \<and> binary_cells b)
          \<and> (\<exists>prev b. main_loop_omp ord 0 (iters - 1) board nw = Inr prev
                 \<and> main_loop_omp ord 0 iters board nw = Inr b
                 \<and> same_shape b board \<and> updated_cells prev b \<and> binary_cells b))"
proof (intro conjI impI)
  show "\<exists>b. updateBoard_par schedule board nworkers = Inr b
             \<and> same_shape b board \<and> updated_cells board b \<and> binary_cells b"
    using updateBoard_par_eq[OF assms(2,3,4)]
    by (simp add: same_shape_new_board_of updated_cells_new_board_of binary_new_board_of)
next
  show "\<exists>b. updateBoard_omp order board nw = Inr b
             \<and> same_shape b board \<and> updated_cells board b \<and> binary_cells b"
    using updateBoard_omp_eq[OF assms(5)]
    by (simp add: same_shape_new_board_of updated_cells_new_board_of binary_new_board_of)
next
  assume pos: "0 < iters"
  then have k: "0 < nat iters" "nat (iters - 1) = nat iters - 1" by simp_all
  let ?prev = "(new_board_of ^^ (nat iters - 1)) board"
  have last: "(new_board_of ^^ nat iters) board = new_board_of ?prev"
    using k(1) by (rule funpow_Suc_last)
  have props: "same_shape (new_board_of ?prev) board" "updated_cells ?prev (new_board_of ?prev)"
    "binary_cells (new_board_of ?prev)"
    using funpow_same_shape[of "nat iters" board]
    by (simp_all add: last updated_cells_new_board_of binary_new_board_of)
  show "\<exists>prev b. main_loop_par sched 0 (iters - 1) board nworkers = Inr prev
                 \<and> main_loop_par sched 0 iters board nworkers = Inr b
                 \<and> same_shape b board \<and> updated_cells prev b \<and> binary_cells b"
    using main_loop_par_eq[OF assms(2,3,4), of sched 0] props by (simp add: k last)
  show "\<exists>prev b. main_loop_omp ord 0 (iters - 1) board nw = Inr prev
                 \<and> main_loop_omp ord 0 iters board nw = Inr b
                 \<and> same_shape b board \<and> updated_cells prev b \<and> binary_cells b"
    using main_loop_omp_eq[OF assms(6), of 0] props by (simp add: k last)
qed

theorem updateBoard_binary_witness:
  "rectangular any_ints 3 \<and> (1::int) \<le> 2 \<and> (2::int) \<le> INT_MAX
   \<and> int (length any_ints) \<le> INT_MAX
   \<and> omp_order (length any_ints) [1, 0]
   \<and> (\<forall>k. omp_order (length any_ints) ((\<lambda>i. [1, 0]) k))
   \<and> (0::int) < 1
   \<and> updateBoard_par [1, 0] any_ints 2 = Inr stepped
   \<and> same_shape stepped any_ints \<and> updated_cells any_ints stepped \<and> binary_cells stepped
   \<and> (\<exists>b. updateBoard_omp [1, 0] any_ints 2 = Inr b
          \<and> same_shape b any_ints \<and> updated_cells any_ints b \<and> binary_cells b)
   \<and> (\<exists>prev b. main_loop_par (\<lambda>i. [1, 0]) 0 (1 - 1) any_ints 2 = Inr prev
          \<and> main_loop_par (\<lambda>i. [1, 0]) 0 1 any_ints 2 = Inr b
          \<and> same_shape b any_ints \<and> updated_cells prev b \<and> binary_cells b)
   \<and> (\<exists>prev b. main_loop_omp (\<lambda>i. [1, 0]) 0 (1 - 1) any_ints 2 = Inr prev
          \<and> main_loop_omp (\<lambda>i. [1, 0]) 0 1 any_ints 2 = Inr b
          \<and> same_shape b any_ints \<and> updated_cells prev b \<and> binary_cells b)"
proof -
  have h: "(1::int) \<le> 2" "(2::int) \<le> INT_MAX" "(0::int) < 1" by (simp_all add: INT_MAX_def)
  have ord: "\<forall>k. omp_order (length any_ints) ((\<lambda>i. [1, 0]) k)" using any_ints_facts(3) by simp
  have v: "updateBoard_par [1, 0] any_ints 2 = Inr stepped" by code_simp
  note t = updateBoard_binary[OF any_ints_facts(1) h(1,2) any_ints_facts(2) any_ints_facts(3) ord,
        of "[1, 0]" 2 1 "\<lambda>i. [1, 0]"]
  from t v have s: "same_shape stepped any_ints \<and> updated_cells any_ints stepped \<and> binary_cells stepped"
    by auto
  show ?thesis
    using any_ints_facts h ord v s t by blast
qed



section \<open>The driver\<close>

text \<open>
  The loop with the log is the loop of \<^verbatim>\<open>main\<close>: it returns the same board, or the same
  error, and logs one call with the worker count \<open>nw\<close> for each step.
\<close>

lemma main_loop_par_log_board:
  "main_loop_par_log sched i iters board nw calls
     = (case main_loop_par sched i iters board nw of
          Inl e \<Rightarrow> Inl e
        | Inr b \<Rightarrow> Inr (b, calls @ replicate (nat (iters - i)) nw))"
proof (induction "nat (iters - i)" arbitrary: i board calls)
  case 0
  then have "\<not> i < iters" by simp
  with 0 show ?case
    by (subst main_loop_par_log.simps, subst main_loop_par.simps) simp
next
  case (Suc k)
  then have lt: "i < iters" by linarith
  have k: "k = nat (iters - (i + 1))" using Suc.hyps(2) by linarith
  show ?case
  proof (cases "updateBoard_par (sched (nat i)) board nw")
    case (Inl e)
    with lt show ?thesis
      by (subst main_loop_par_log.simps, subst main_loop_par.simps) simp
  next
    case (Inr b')
    have r: "(calls @ [nw]) @ replicate k nw = calls @ replicate (nat (iters - i)) nw"
      using Suc.hyps(2)[symmetric] by simp
    show ?thesis
      using lt Inr Suc.hyps(1)[OF k, of b' "calls @ [nw]"] k r
      by (subst main_loop_par_log.simps, subst main_loop_par.simps) (simp split: sum.splits)
  qed
qed

lemma main_loop_omp_log_board:
  "main_loop_omp_log ord i iters board nw calls
     = (case main_loop_omp ord i iters board nw of
          Inl e \<Rightarrow> Inl e
        | Inr b \<Rightarrow> Inr (b, calls @ replicate (nat (iters - i)) nw))"
proof (induction "nat (iters - i)" arbitrary: i board calls)
  case 0
  then have "\<not> i < iters" by simp
  with 0 show ?case
    by (subst main_loop_omp_log.simps, subst main_loop_omp.simps) simp
next
  case (Suc k)
  then have lt: "i < iters" by linarith
  have k: "k = nat (iters - (i + 1))" using Suc.hyps(2) by linarith
  show ?case
  proof (cases "updateBoard_omp (ord (nat i)) board nw")
    case (Inl e)
    with lt show ?thesis
      by (subst main_loop_omp_log.simps, subst main_loop_omp.simps) simp
  next
    case (Inr b')
    have r: "(calls @ [nw]) @ replicate k nw = calls @ replicate (nat (iters - i)) nw"
      using Suc.hyps(2)[symmetric] by simp
    show ?thesis
      using lt Inr Suc.hyps(1)[OF k, of b' "calls @ [nw]"] k r
      by (subst main_loop_omp_log.simps, subst main_loop_omp.simps) (simp split: sum.splits)
  qed
qed

lemma main_loop_par_log_eq:
  assumes "1 \<le> nw" "nw \<le> INT_MAX" "int (length board) \<le> INT_MAX"
  shows "main_loop_par_log sched i iters board nw calls
           = Inr ((new_board_of ^^ nat (iters - i)) board, calls @ replicate (nat (iters - i)) nw)"
  by (simp add: main_loop_par_log_board main_loop_par_eq[OF assms])

lemma main_loop_omp_log_eq:
  assumes "\<forall>k. omp_order (length board) (ord k)"
  shows "main_loop_omp_log ord i iters board nw calls
           = Inr ((new_board_of ^^ nat (iters - i)) board, calls @ replicate (nat (iters - i)) nw)"
  by (simp add: main_loop_omp_log_board main_loop_omp_eq[OF assms])

lemma generations_eq: "generations n board = Inr ((new_board_of ^^ n) board)"
  by (induction n arbitrary: board) (simp_all add: sequential_step_eq funpow_swap1)

lemma length_initializeBoard: "length (initializeBoard rnd nrows ncols seed) = nat nrows"
  by (simp add: initializeBoard_def)

lemma well_formed_args:
  assumes "well_formed env argv"
  shows "int (length argv) = 7" "1 < atoi env (argv ! 1)" "atoi env (argv ! 1) \<le> INT_MAX"
        "1 \<le> atoi env (argv ! 6)" "atoi env (argv ! 6) \<le> INT_MAX"
  using assms by (simp_all add: well_formed_def)

lemma c_div_1000:
  "c_div u 1000 = (if 0 \<le> u then u div 1000 else - ((- u) div 1000))"
  by (simp add: c_div_def sgn_if)

text \<open>The result of the threads version's main when its loop runs with a valid worker count.\<close>

lemma main_par_valid:
  assumes "int (length argv) = 7" "1 \<le> atoi env (argv ! 1)" "atoi env (argv ! 1) \<le> INT_MAX"
    "1 \<le> atoi env (argv ! 6)" "atoi env (argv ! 6) \<le> INT_MAX"
  shows "main_par env argv =
     Inr \<lparr>printed_items =
            (if atoi env (argv ! 6) > atoi env (argv ! 1)
             then [Str ''Warning: bounding workers with nrows.'', Str [CHR 0x0A]] else [])
            @ [Str ''Simulation spent: '',
               Num (if 0 \<le> elapsed_usec env then elapsed_usec env div 1000
                    else - ((- elapsed_usec env) div 1000)),
               Str ('' msec'' @ [CHR 0x0A])],
          exit_status = 0,
          final_board = Some ((new_board_of ^^ nat (atoi env (argv ! 3)))
             (initializeBoard (rand env) (atoi env (argv ! 1)) (atoi env (argv ! 2))
                (atoi env (argv ! 4)))),
          update_calls = replicate (nat (atoi env (argv ! 3)))
             (min (atoi env (argv ! 6)) (atoi env (argv ! 1)))\<rparr>"
proof -
  let ?nrows = "atoi env (argv ! 1)" and ?nw = "atoi env (argv ! 6)"
  let ?board = "initializeBoard (rand env) ?nrows (atoi env (argv ! 2)) (atoi env (argv ! 4))"
  have len: "int (length ?board) \<le> INT_MAX" using assms(2,3) by (simp add: length_initializeBoard)
  show ?thesis
  proof (cases "?nw > ?nrows")
    case True
    then have m: "min ?nw ?nrows = ?nrows" by simp
    show ?thesis
      using True assms(1) main_loop_par_log_eq[OF assms(2,3) len, of "schedules env" 0 "atoi env (argv ! 3)" "[]"]
      by (simp add: main_par_def Let_def spent_def c_div_1000 m)
  next
    case False
    then have m: "min ?nw ?nrows = ?nw" by simp
    show ?thesis
      using False assms(1) main_loop_par_log_eq[OF assms(4,5) len, of "schedules env" 0 "atoi env (argv ! 3)" "[]"]
      by (simp add: main_par_def Let_def spent_def c_div_1000 m)
  qed
qed

lemma main_omp_valid:
  assumes "int (length argv) = 7" "\<forall>k. omp_order (nat (atoi env (argv ! 1))) (orders env k)"
  shows "main_omp env argv =
     Inr \<lparr>printed_items =
            [Str ''Simulation spent: '',
             Num (if 0 \<le> elapsed_usec env then elapsed_usec env div 1000
                  else - ((- elapsed_usec env) div 1000)),
             Str ('' msec'' @ [CHR 0x0A])],
          exit_status = 0,
          final_board = Some ((new_board_of ^^ nat (atoi env (argv ! 3)))
             (initializeBoard (rand env) (atoi env (argv ! 1)) (atoi env (argv ! 2))
                (atoi env (argv ! 4)))),
          update_calls = replicate (nat (atoi env (argv ! 3))) (atoi env (argv ! 6))\<rparr>"
proof -
  let ?board = "initializeBoard (rand env) (atoi env (argv ! 1)) (atoi env (argv ! 2)) (atoi env (argv ! 4))"
  have "\<forall>k. omp_order (length ?board) (orders env k)"
    using assms(2) by (simp add: length_initializeBoard)
  from main_loop_omp_log_eq[OF this, of 0 "atoi env (argv ! 3)" "atoi env (argv ! 6)" "[]"] assms(1)
  show ?thesis by (simp add: main_omp_def Let_def spent_def c_div_1000)
qed

lemma main_par_7:
  "int (length argv) = 7 \<Longrightarrow> main_par env argv = Inr res \<Longrightarrow>
   exit_status res = 0 \<and> Str ''Usage: '' \<notin> set (printed_items res)"
  by (auto simp: main_par_def Let_def spent_def split: sum.splits prod.splits if_splits)

lemma main_omp_7:
  "int (length argv) = 7 \<Longrightarrow> main_omp env argv = Inr res \<Longrightarrow>
   exit_status res = 0 \<and> Str ''Usage: '' \<notin> set (printed_items res)"
  by (auto simp: main_omp_def Let_def spent_def split: sum.splits prod.splits if_splits)

lemma main_not7:
  assumes "int (length argv) \<noteq> 7"
  shows "main_par env argv =
       Inr \<lparr>printed_items =
              (case argv of
                 [] \<Rightarrow> [Str ''Usage: '']
               | prog # _ \<Rightarrow>
                   [Str ''Usage: '', Str prog,
                    Str ('' nrows ncols iters seed sleeptime nworkers'' @ [CHR 0x0A])]),
            exit_status = -1, final_board = None, update_calls = []\<rparr>"
    and "main_omp env argv =
       Inr \<lparr>printed_items =
              (case argv of
                 [] \<Rightarrow> [Str ''Usage: '']
               | prog # _ \<Rightarrow>
                   [Str ''Usage: '', Str prog,
                    Str ('' nrows ncols iters seed sleeptime nworkers'' @ [CHR 0x0A])]),
            exit_status = -1, final_board = None, update_calls = []\<rparr>"
  using assms by (simp_all add: main_par_def main_omp_def usage_def)

lemma example_short: "int (length [''gol'', ''3'']) \<noteq> 7"
  by simp

lemma example_generations:
  "generations (nat (atoi example_env (example_argv ! 3)))
     (initializeBoard (rand example_env) (atoi example_env (example_argv ! 1))
        (atoi example_env (example_argv ! 2)) (atoi example_env (example_argv ! 4))) = Inr tub"
  by code_simp

lemma example_orders_all:
  "\<forall>k. omp_order (nat (atoi example_env (example_argv ! 1))) (orders example_env k)"
  using example_orders by (simp add: example_env_def)

lemma example_args:
  "int (length example_argv) = 7" "1 \<le> atoi example_env (example_argv ! 1)"
  "atoi example_env (example_argv ! 1) \<le> INT_MAX"
  "atoi example_env (example_argv ! 6) > atoi example_env (example_argv ! 1)"
  by code_simp+

lemma make_ranges_one_row_each:
  assumes "1 \<le> nrows" "nrows \<le> INT_MAX"
  shows "length (make_ranges (nat nrows) nrows) = nat nrows"
    and "list_all (\<lambda>rg. range_start rg \<le> range_end rg) (make_ranges (nat nrows) nrows)"
proof -
  have n: "int (nat nrows) \<le> INT_MAX" using assms by simp
  have closed: "make_ranges (nat nrows) nrows = map (nth_range (nat nrows) nrows) [0..<nat nrows]"
    using assms n by (rule make_ranges_closed)
  have b: "chunk_bound (nat nrows) nrows i = i" if "0 \<le> i" for i
    using assms(1) that by (simp add: chunk_bound_def)
  have "range_start rg \<le> range_end rg" if "rg \<in> set (make_ranges (nat nrows) nrows)" for rg
  proof -
    from that obtain i where "rg = nth_range (nat nrows) nrows i" unfolding closed by auto
    then show ?thesis by (simp add: nth_range_def b)
  qed
  then show "list_all (\<lambda>rg. range_start rg \<le> range_end rg) (make_ranges (nat nrows) nrows)"
    by (simp add: list_all_iff)
  show "length (make_ranges (nat nrows) nrows) = nat nrows" by (simp add: closed)
qed

text \<open>
  Claim C8. The process prints the usage message and exits with a status that is not 0
  exactly when the number of command-line arguments is wrong (\<open>argc \<noteq> 7\<close>): then it
  prints the usage line and returns -1 without making a board, and with \<open>argc = 7\<close> no
  run that returns prints it or returns another status than 0. For a well-formed
  invocation (six arguments read as positive integers, more than one row and more than
  one column) it runs all the steps of the simulation, so that the board it ends with
  is the board after \<open>iters\<close> generations of the board it made, prints the elapsed
  time in milliseconds (after the warning, in the threads version, when the worker
  count was bounded) and exits with status 0. Both versions.
\<close>

theorem main_exit_status:
  "(int (length argv) \<noteq> 7 \<longrightarrow>
      main_par env argv =
        Inr \<lparr>printed_items =
               (case argv of
                  [] \<Rightarrow> [Str ''Usage: '']
                | prog # _ \<Rightarrow>
                    [Str ''Usage: '', Str prog,
                     Str ('' nrows ncols iters seed sleeptime nworkers'' @ [CHR 0x0A])]),
             exit_status = -1, final_board = None, update_calls = []\<rparr>
    \<and> main_omp env argv =
        Inr \<lparr>printed_items =
               (case argv of
                  [] \<Rightarrow> [Str ''Usage: '']
                | prog # _ \<Rightarrow>
                    [Str ''Usage: '', Str prog,
                     Str ('' nrows ncols iters seed sleeptime nworkers'' @ [CHR 0x0A])]),
             exit_status = -1, final_board = None, update_calls = []\<rparr>)
 \<and> ((\<exists>res. main_par env argv = Inr res \<and> exit_status res \<noteq> 0
            \<and> Str ''Usage: '' \<in> set (printed_items res)) \<longleftrightarrow> int (length argv) \<noteq> 7)
 \<and> ((\<exists>res. main_omp env argv = Inr res \<and> exit_status res \<noteq> 0
            \<and> Str ''Usage: '' \<in> set (printed_items res)) \<longleftrightarrow> int (length argv) \<noteq> 7)
 \<and> (int (length argv) = 7 \<longrightarrow>
      (\<forall>res. main_par env argv = Inr res \<or> main_omp env argv = Inr res \<longrightarrow>
         exit_status res = 0 \<and> Str ''Usage: '' \<notin> set (printed_items res)))
 \<and> (well_formed env argv \<longrightarrow>
      (\<exists>final.
         generations (nat (atoi env (argv ! 3)))
           (initializeBoard (rand env) (atoi env (argv ! 1)) (atoi env (argv ! 2))
              (atoi env (argv ! 4))) = Inr final
       \<and> main_par env argv =
           Inr \<lparr>printed_items =
                  (if atoi env (argv ! 6) > atoi env (argv ! 1)
                   then [Str ''Warning: bounding workers with nrows.'', Str [CHR 0x0A]] else [])
                  @ [Str ''Simulation spent: '',
                     Num (if 0 \<le> elapsed_usec env then elapsed_usec env div 1000
                          else - ((- elapsed_usec env) div 1000)),
                     Str ('' msec'' @ [CHR 0x0A])],
                exit_status = 0, final_board = Some final,
                update_calls = replicate (nat (atoi env (argv ! 3)))
                   (min (atoi env (argv ! 6)) (atoi env (argv ! 1)))\<rparr>))
 \<and> (well_formed env argv \<and> (\<forall>k. omp_order (nat (atoi env (argv ! 1))) (orders env k)) \<longrightarrow>
      (\<exists>final.
         generations (nat (atoi env (argv ! 3)))
           (initializeBoard (rand env) (atoi env (argv ! 1)) (atoi env (argv ! 2))
              (atoi env (argv ! 4))) = Inr final
       \<and> main_omp env argv =
           Inr \<lparr>printed_items =
                  [Str ''Simulation spent: '',
                   Num (if 0 \<le> elapsed_usec env then elapsed_usec env div 1000
                        else - ((- elapsed_usec env) div 1000)),
                   Str ('' msec'' @ [CHR 0x0A])],
                exit_status = 0, final_board = Some final,
                update_calls = replicate (nat (atoi env (argv ! 3))) (atoi env (argv ! 6))\<rparr>))"
proof -
  have not7: "int (length argv) \<noteq> 7 \<Longrightarrow>
      (\<exists>res. main_par env argv = Inr res \<and> exit_status res \<noteq> 0
            \<and> Str ''Usage: '' \<in> set (printed_items res))
    \<and> (\<exists>res. main_omp env argv = Inr res \<and> exit_status res \<noteq> 0
            \<and> Str ''Usage: '' \<in> set (printed_items res))"
    by (cases argv) (simp_all add: main_not7)
  have is7: "int (length argv) = 7 \<Longrightarrow>
      (\<forall>res. main_par env argv = Inr res \<or> main_omp env argv = Inr res \<longrightarrow>
         exit_status res = 0 \<and> Str ''Usage: '' \<notin> set (printed_items res))"
    using main_par_7[of argv env] main_omp_7[of argv env] by blast
  have par: "well_formed env argv \<Longrightarrow>
      (\<exists>final.
         generations (nat (atoi env (argv ! 3)))
           (initializeBoard (rand env) (atoi env (argv ! 1)) (atoi env (argv ! 2))
              (atoi env (argv ! 4))) = Inr final
       \<and> main_par env argv =
           Inr \<lparr>printed_items =
                  (if atoi env (argv ! 6) > atoi env (argv ! 1)
                   then [Str ''Warning: bounding workers with nrows.'', Str [CHR 0x0A]] else [])
                  @ [Str ''Simulation spent: '',
                     Num (if 0 \<le> elapsed_usec env then elapsed_usec env div 1000
                          else - ((- elapsed_usec env) div 1000)),
                     Str ('' msec'' @ [CHR 0x0A])],
                exit_status = 0, final_board = Some final,
                update_calls = replicate (nat (atoi env (argv ! 3)))
                   (min (atoi env (argv ! 6)) (atoi env (argv ! 1)))\<rparr>)"
  proof -
    assume wf: "well_formed env argv"
    note a = well_formed_args[OF wf]
    have "1 \<le> atoi env (argv ! 1)" using a(2) by simp
    from main_par_valid[OF a(1) this a(3) a(4) a(5)] show ?thesis
      by (simp add: generations_eq)
  qed
  have omp: "well_formed env argv \<and> (\<forall>k. omp_order (nat (atoi env (argv ! 1))) (orders env k)) \<Longrightarrow>
      (\<exists>final.
         generations (nat (atoi env (argv ! 3)))
           (initializeBoard (rand env) (atoi env (argv ! 1)) (atoi env (argv ! 2))
              (atoi env (argv ! 4))) = Inr final
       \<and> main_omp env argv =
           Inr \<lparr>printed_items =
                  [Str ''Simulation spent: '',
                   Num (if 0 \<le> elapsed_usec env then elapsed_usec env div 1000
                        else - ((- elapsed_usec env) div 1000)),
                   Str ('' msec'' @ [CHR 0x0A])],
                exit_status = 0, final_board = Some final,
                update_calls = replicate (nat (atoi env (argv ! 3))) (atoi env (argv ! 6))\<rparr>)"
  proof -
    assume h: "well_formed env argv \<and> (\<forall>k. omp_order (nat (atoi env (argv ! 1))) (orders env k))"
    then have a: "int (length argv) = 7" using well_formed_args(1)[of env argv] by blast
    from h main_omp_valid[OF a] show ?thesis by (simp add: generations_eq)
  qed
  show ?thesis
    using main_not7[of argv env] not7 is7 par omp by blast
qed

theorem main_exit_status_witness:
  "well_formed example_env example_argv
   \<and> (\<forall>k. omp_order (nat (atoi example_env (example_argv ! 1))) (orders example_env k))
   \<and> int (length [''gol'', ''3'']) \<noteq> 7
   \<and> main_par example_env [''gol'', ''3''] =
        Inr \<lparr>printed_items =
               [Str ''Usage: '', Str ''gol'',
                Str ('' nrows ncols iters seed sleeptime nworkers'' @ [CHR 0x0A])],
             exit_status = -1, final_board = None, update_calls = []\<rparr>
   \<and> main_omp example_env [''gol'', ''3''] =
        Inr \<lparr>printed_items =
               [Str ''Usage: '', Str ''gol'',
                Str ('' nrows ncols iters seed sleeptime nworkers'' @ [CHR 0x0A])],
             exit_status = -1, final_board = None, update_calls = []\<rparr>
   \<and> main_par example_env example_argv =
        Inr \<lparr>printed_items =
               [Str ''Warning: bounding workers with nrows.'', Str [CHR 0x0A],
                Str ''Simulation spent: '', Num 2, Str ('' msec'' @ [CHR 0x0A])],
             exit_status = 0, final_board = Some tub, update_calls = [3, 3]\<rparr>
   \<and> main_omp example_env example_argv =
        Inr \<lparr>printed_items =
               [Str ''Simulation spent: '', Num 2, Str ('' msec'' @ [CHR 0x0A])],
             exit_status = 0, final_board = Some tub, update_calls = [5, 5]\<rparr>"
proof -
  note short = main_exit_status[of "[''gol'', ''3'']" example_env]
  note long = main_exit_status[of example_argv example_env]
  have args: "atoi example_env (example_argv ! 1) = 3" "atoi example_env (example_argv ! 3) = 2"
    "atoi example_env (example_argv ! 6) = 5" "elapsed_usec example_env = 2500"
    by code_simp+
  have u: "main_par example_env [''gol'', ''3''] =
        Inr \<lparr>printed_items =
               [Str ''Usage: '', Str ''gol'',
                Str ('' nrows ncols iters seed sleeptime nworkers'' @ [CHR 0x0A])],
             exit_status = -1, final_board = None, update_calls = []\<rparr>"
    "main_omp example_env [''gol'', ''3''] =
        Inr \<lparr>printed_items =
               [Str ''Usage: '', Str ''gol'',
                Str ('' nrows ncols iters seed sleeptime nworkers'' @ [CHR 0x0A])],
             exit_status = -1, final_board = None, update_calls = []\<rparr>"
    using short example_short by simp_all
  from long example_wf obtain final where f:
    "generations (nat (atoi example_env (example_argv ! 3)))
       (initializeBoard (rand example_env) (atoi example_env (example_argv ! 1))
          (atoi example_env (example_argv ! 2)) (atoi example_env (example_argv ! 4))) = Inr final"
    "main_par example_env example_argv =
           Inr \<lparr>printed_items =
                  (if atoi example_env (example_argv ! 6) > atoi example_env (example_argv ! 1)
                   then [Str ''Warning: bounding workers with nrows.'', Str [CHR 0x0A]] else [])
                  @ [Str ''Simulation spent: '',
                     Num (if 0 \<le> elapsed_usec example_env then elapsed_usec example_env div 1000
                          else - ((- elapsed_usec example_env) div 1000)),
                     Str ('' msec'' @ [CHR 0x0A])],
                exit_status = 0, final_board = Some final,
                update_calls = replicate (nat (atoi example_env (example_argv ! 3)))
                   (min (atoi example_env (example_argv ! 6)) (atoi example_env (example_argv ! 1)))\<rparr>"
    by blast
  from f(1) have "final = tub" unfolding example_generations by simp
  with f(2)[unfolded args] have p: "main_par example_env example_argv =
        Inr \<lparr>printed_items =
               [Str ''Warning: bounding workers with nrows.'', Str [CHR 0x0A],
                Str ''Simulation spent: '', Num 2, Str ('' msec'' @ [CHR 0x0A])],
             exit_status = 0, final_board = Some tub, update_calls = [3, 3]\<rparr>"
    by (simp add: numeral_2_eq_2)
  from long example_wf example_orders_all obtain final' where g:
    "generations (nat (atoi example_env (example_argv ! 3)))
       (initializeBoard (rand example_env) (atoi example_env (example_argv ! 1))
          (atoi example_env (example_argv ! 2)) (atoi example_env (example_argv ! 4))) = Inr final'"
    "main_omp example_env example_argv =
           Inr \<lparr>printed_items =
                  [Str ''Simulation spent: '',
                   Num (if 0 \<le> elapsed_usec example_env then elapsed_usec example_env div 1000
                        else - ((- elapsed_usec example_env) div 1000)),
                   Str ('' msec'' @ [CHR 0x0A])],
                exit_status = 0, final_board = Some final',
                update_calls = replicate (nat (atoi example_env (example_argv ! 3)))
                   (atoi example_env (example_argv ! 6))\<rparr>"
    by blast
  from g(1) have "final' = tub" unfolding example_generations by simp
  with g(2)[unfolded args] have o: "main_omp example_env example_argv =
        Inr \<lparr>printed_items =
               [Str ''Simulation spent: '', Num 2, Str ('' msec'' @ [CHR 0x0A])],
             exit_status = 0, final_board = Some tub, update_calls = [5, 5]\<rparr>"
    by (simp add: numeral_2_eq_2)
  show ?thesis
    using example_wf example_orders_all example_short u p o by blast
qed

text \<open>
  Claim C7 says that both versions cap the worker count at \<open>nrows\<close> when
  \<open>nworkers > nrows\<close>. The \<^verbatim>\<open>main\<close> of the OpenMP version does not: run with 3 rows and
  5 workers for 2 steps, it calls \<^verbatim>\<open>updateBoard\<close> with 5 workers at both steps.
\<close>

theorem main_omp_no_bound:
  "int (length example_argv) = 7
   \<and> atoi example_env (example_argv ! 1) = 3
   \<and> atoi example_env (example_argv ! 6) = 5
   \<and> main_omp example_env example_argv =
        Inr \<lparr>printed_items =
               [Str ''Simulation spent: '', Num 2, Str ('' msec'' @ [CHR 0x0A])],
             exit_status = 0, final_board = Some tub, update_calls = [5, 5]\<rparr>"
  by code_simp

text \<open>
  Claim C7, amended. For every configuration with \<open>nworkers > nrows\<close> and at least one
  row, the \<^verbatim>\<open>main\<close> of the threads version prints its warning and calls
  \<^verbatim>\<open>updateBoard\<close> with \<open>nrows\<close> workers at every step, from the first one on; with that
  worker count on a board of \<open>nrows\<close> rows, \<^verbatim>\<open>updateBoard\<close> builds \<open>nrows\<close> ranges and
  each has at least one row. The \<^verbatim>\<open>main\<close> of the OpenMP version, which has no
  partition, calls \<^verbatim>\<open>updateBoard\<close> with the worker count as it was given.
\<close>

theorem main_par_bounds_workers:
  assumes "int (length argv) = 7"
    and "1 \<le> atoi env (argv ! 1)" "atoi env (argv ! 1) \<le> INT_MAX"
    and "atoi env (argv ! 6) > atoi env (argv ! 1)"
    and "\<forall>k. omp_order (nat (atoi env (argv ! 1))) (orders env k)"
  shows "(\<exists>res. main_par env argv = Inr res
            \<and> update_calls res = replicate (nat (atoi env (argv ! 3))) (atoi env (argv ! 1))
            \<and> take 2 (printed_items res)
                = [Str ''Warning: bounding workers with nrows.'', Str [CHR 0x0A]])
       \<and> length (make_ranges (nat (atoi env (argv ! 1))) (atoi env (argv ! 1)))
           = nat (atoi env (argv ! 1))
       \<and> list_all (\<lambda>rg. range_start rg \<le> range_end rg)
             (make_ranges (nat (atoi env (argv ! 1))) (atoi env (argv ! 1)))
       \<and> (\<exists>res. main_omp env argv = Inr res
            \<and> update_calls res = replicate (nat (atoi env (argv ! 3))) (atoi env (argv ! 6)))"
proof -
  let ?nrows = "atoi env (argv ! 1)"
  let ?board = "initializeBoard (rand env) ?nrows (atoi env (argv ! 2)) (atoi env (argv ! 4))"
  have len: "int (length ?board) \<le> INT_MAX" using assms(2,3) by (simp add: length_initializeBoard)
  have par: "\<exists>res. main_par env argv = Inr res
            \<and> update_calls res = replicate (nat (atoi env (argv ! 3))) ?nrows
            \<and> take 2 (printed_items res)
                = [Str ''Warning: bounding workers with nrows.'', Str [CHR 0x0A]]"
    using assms(1,4)
      main_loop_par_log_eq[OF assms(2,3) len, of "schedules env" 0 "atoi env (argv ! 3)" "[]"]
    by (simp add: main_par_def Let_def)
  have omp: "\<exists>res. main_omp env argv = Inr res
            \<and> update_calls res = replicate (nat (atoi env (argv ! 3))) (atoi env (argv ! 6))"
    using main_omp_valid[OF assms(1,5)] by simp
  note rows = make_ranges_one_row_each[OF assms(2,3)]
  with par omp rows show ?thesis by blast
qed

theorem main_par_bounds_workers_witness:
  "int (length example_argv) = 7
   \<and> 1 \<le> atoi example_env (example_argv ! 1) \<and> atoi example_env (example_argv ! 1) \<le> INT_MAX
   \<and> atoi example_env (example_argv ! 6) > atoi example_env (example_argv ! 1)
   \<and> (\<forall>k. omp_order (nat (atoi example_env (example_argv ! 1))) (orders example_env k))
   \<and> (\<exists>res. main_par example_env example_argv = Inr res
          \<and> update_calls res
              = replicate (nat (atoi example_env (example_argv ! 3))) (atoi example_env (example_argv ! 1))
          \<and> take 2 (printed_items res)
              = [Str ''Warning: bounding workers with nrows.'', Str [CHR 0x0A]])
   \<and> length (make_ranges (nat (atoi example_env (example_argv ! 1))) (atoi example_env (example_argv ! 1)))
       = nat (atoi example_env (example_argv ! 1))
   \<and> list_all (\<lambda>rg. range_start rg \<le> range_end rg)
         (make_ranges (nat (atoi example_env (example_argv ! 1))) (atoi example_env (example_argv ! 1)))
   \<and> (\<exists>res. main_omp example_env example_argv = Inr res
          \<and> update_calls res
              = replicate (nat (atoi example_env (example_argv ! 3))) (atoi example_env (example_argv ! 6)))
   \<and> replicate (nat (atoi example_env (example_argv ! 3))) (atoi example_env (example_argv ! 1)) = [3, 3]
   \<and> make_ranges (nat (atoi example_env (example_argv ! 1))) (atoi example_env (example_argv ! 1))
       = [\<lparr>range_start = 0, range_end = 0\<rparr>, \<lparr>range_start = 1, range_end = 1\<rparr>,
          \<lparr>range_start = 2, range_end = 2\<rparr>]"
proof -
  have v: "replicate (nat (atoi example_env (example_argv ! 3))) (atoi example_env (example_argv ! 1)) = [3, 3]"
    "make_ranges (nat (atoi example_env (example_argv ! 1))) (atoi example_env (example_argv ! 1))
       = [\<lparr>range_start = 0, range_end = 0\<rparr>, \<lparr>range_start = 1, range_end = 1\<rparr>,
          \<lparr>range_start = 2, range_end = 2\<rparr>]"
    by code_simp+
  show ?thesis
    using example_args example_orders_all v
      main_par_bounds_workers[OF example_args example_orders_all]
    by blast
qed

end
